theory Spec2Isabelle
  imports Complex_Main
begin

section \<open>Python values\<close>

text \<open>
  The embedding follows \<^verbatim>\<open>backend/app.py\<close>. Conventions used throughout:
  \<^item> a Python \<^verbatim>\<open>str\<close> is a \<open>string\<close>; each \<open>char\<close> stands for one code point
    below 256;
  \<^item> a Python \<^verbatim>\<open>float\<close> that the code only stores, compares and prints (a progress
    value) is the \<open>real\<close> it denotes; where the code computes with floats (the duration
    helpers) a float is a \<open>pyfloat\<close>, a binary64 value with its rounding and overflow;
  \<^item> a source name with a leading underscore loses it (\<^verbatim>\<open>_job_dir\<close> is \<open>job_dir\<close>);
  \<^item> a path is the list of its components below \<^verbatim>\<open>ROOT\<close>;
  \<^item> the SQLite table and the file system are fields of an explicit state; storage
    faults (a locked database, a full disk, a failing \<^verbatim>\<open>mkdir\<close> or \<^verbatim>\<open>unlink\<close>)
    are not modelled: these operations succeed.
\<close>

text \<open>
  A value that \<^verbatim>\<open>json.loads\<close> returns and \<^verbatim>\<open>json.dumps\<close> accepts. A dict is an
  association list in insertion order with distinct keys; Python's \<^verbatim>\<open>None\<close> is
  \<open>JNull\<close>.
\<close>

datatype json =
    JNull
  | JBool bool
  | JInt int
  | JReal real
  | JStr string
  | JArr "json list"
  | JObj "(string \<times> json) list"

text \<open>Exceptions: FastAPI's \<^verbatim>\<open>HTTPException(status_code, detail)\<close>, and any other
  exception as the pair of its class name and its \<^verbatim>\<open>str()\<close>.\<close>

datatype http_error = HTTPException nat string

type_synonym pyerr = "string \<times> string"

text \<open>\<^verbatim>\<open>type(v).__name__\<close> of a decoded JSON value.\<close>

fun py_type_name :: "json \<Rightarrow> string" where
  "py_type_name JNull = ''NoneType''"
| "py_type_name (JBool _) = ''bool''"
| "py_type_name (JInt _) = ''int''"
| "py_type_name (JReal _) = ''float''"
| "py_type_name (JStr _) = ''str''"
| "py_type_name (JArr _) = ''list''"
| "py_type_name (JObj _) = ''dict''"

text \<open>\<^verbatim>\<open>v.get(key)\<close>: a dict lookup with default \<^verbatim>\<open>None\<close>; on any other value
  the attribute is missing and Python raises \<^verbatim>\<open>AttributeError\<close>.\<close>

fun py_get :: "json \<Rightarrow> string \<Rightarrow> pyerr + json" where
  "py_get (JObj kvs) k = Inr (case map_of kvs k of None \<Rightarrow> JNull | Some v \<Rightarrow> v)"
| "py_get v k =
     Inl (''AttributeError'',
          [CHR 0x27] @ py_type_name v @ [CHR 0x27] @ '' object has no attribute ''
            @ [CHR 0x27] @ ''get'' @ [CHR 0x27])"

text \<open>Truth value of a decoded JSON value, as \<^verbatim>\<open>or\<close> and \<^verbatim>\<open>if\<close> test it.\<close>

fun truthy :: "json \<Rightarrow> bool" where
  "truthy JNull = False"
| "truthy (JBool b) = b"
| "truthy (JInt i) = (i \<noteq> 0)"
| "truthy (JReal r) = (r \<noteq> 0)"
| "truthy (JStr s) = (s \<noteq> [])"
| "truthy (JArr xs) = (xs \<noteq> [])"
| "truthy (JObj kvs) = (kvs \<noteq> [])"

text \<open>\<^verbatim>\<open>a or b\<close>.\<close>

definition py_or :: "json \<Rightarrow> json \<Rightarrow> json" where
  "py_or a b = (if truthy a then a else b)"

text \<open>An \<^verbatim>\<open>Optional[str]\<close> as a JSON value.\<close>

fun opt_str :: "string option \<Rightarrow> json" where
  "opt_str None = JNull"
| "opt_str (Some s) = JStr s"

text \<open>\<^verbatim>\<open>str(n)\<close> for an integer.\<close>

definition digit_char :: "nat \<Rightarrow> char" where
  "digit_char n = ''0123456789'' ! n"

fun str_nat :: "nat \<Rightarrow> string" where
  "str_nat n = (if n < 10 then [digit_char n] else str_nat (n div 10) @ [digit_char (n mod 10)])"

declare str_nat.simps [simp del]

definition str_int :: "int \<Rightarrow> string" where
  "str_int i = (if i < 0 then CHR ''-'' # str_nat (nat (- i)) else str_nat (nat i))"

text \<open>\<^verbatim>\<open>s[-n:]\<close>: the last \<open>n\<close> characters.\<close>

definition str_tail :: "nat \<Rightarrow> string \<Rightarrow> string" where
  "str_tail n s = drop (length s - n) s"

section \<open>Video duration helpers\<close>

text \<open>
  The character classes of Python's \<^verbatim>\<open>re\<close> on \<^verbatim>\<open>str\<close>, for code points below 256:
  \<^verbatim>\<open>\s\<close> is Unicode white space, \<^verbatim>\<open>\d\<close> a decimal digit (only the ASCII digits, below
  256).
\<close>

definition is_space :: "char \<Rightarrow> bool" where
  "is_space c = (c \<in> set [CHR 0x09, CHR 0x0A, CHR 0x0B, CHR 0x0C, CHR 0x0D, CHR 0x1C, CHR 0x1D,
                          CHR 0x1E, CHR 0x1F, CHR 0x20, CHR 0x85, CHR 0xA0])"

definition is_digit :: "char \<Rightarrow> bool" where
  "is_digit c = (c \<in> set ''0123456789'')"

text \<open>
  A non-negative Python \<^verbatim>\<open>float\<close>: a finite binary64 value, as the real number it
  denotes, or \<^verbatim>\<open>inf\<close>. \<open>round_half_even\<close> rounds a real to the nearest integer, ties
  to the even one. \<open>round_to_double\<close> is the IEEE 754 rounding of a non-negative real to
  binary64 (round to nearest, ties to even): the real is scaled by the spacing \<open>q\<close> of
  the doubles of its binade (53 significant bits, the exponent not below that of the
  subnormals), rounded to an integer and scaled back; a result of \<open>2 ^ 1024\<close> or more
  is the overflow to \<^verbatim>\<open>inf\<close>. \<open>float_add\<close> is \<^verbatim>\<open>+\<close> on two such floats.
\<close>

datatype pyfloat = Finite real | PosInf

definition round_half_even :: "real \<Rightarrow> int" where
  "round_half_even x =
     (let f = \<lfloor>x\<rfloor>; r = x - of_int f
      in if r < 1 / 2 then f else if 1 / 2 < r then f + 1 else if even f then f else f + 1)"

definition double_limit :: real where
  "double_limit = 2 ^ 1024"

definition round_to_double :: "real \<Rightarrow> pyfloat" where
  "round_to_double x =
     (if x \<le> 0 then Finite 0
      else let e = max \<lfloor>log 2 x\<rfloor> (- 1022);
               q = 2 powr (of_int e - 52);
               y = of_int (round_half_even (x / q)) * q
           in if double_limit \<le> y then PosInf else Finite y)"

definition float_add :: "pyfloat \<Rightarrow> pyfloat \<Rightarrow> pyfloat" where
  "float_add a b =
     (case a of PosInf \<Rightarrow> PosInf
      | Finite x \<Rightarrow> (case b of PosInf \<Rightarrow> PosInf | Finite y \<Rightarrow> round_to_double (x + y)))"

text \<open>
  \<^verbatim>\<open>int(s)\<close> on a string of digits. \<open>maxd\<close> is the interpreter's limit on the length of
  a decimal integer string (\<^verbatim>\<open>sys.get_int_max_str_digits()\<close>, 4300 unless configured, 0
  for no limit and in interpreters that have none); it applies to strings of more than
  640 digits, leading zeros included, and \<^verbatim>\<open>int\<close> then raises \<^verbatim>\<open>ValueError\<close> (the
  message is that of CPython 3.11 and later).
\<close>

definition int_too_long :: "nat \<Rightarrow> nat \<Rightarrow> pyerr" where
  "int_too_long maxd n =
     (''ValueError'',
      ''Exceeds the limit ('' @ str_nat maxd @ '' digits) for integer string conversion: value has ''
        @ str_nat n @ '' digits; use sys.set_int_max_str_digits() to increase the limit'')"

definition nat_of_digits :: "string \<Rightarrow> nat" where
  "nat_of_digits s = foldl (\<lambda>a c. 10 * a + (of_char c - 48)) 0 s"

definition py_int :: "nat \<Rightarrow> string \<Rightarrow> pyerr + nat" where
  "py_int maxd s =
     (if 0 < maxd \<and> maxd < length s \<and> 640 < length s then Inl (int_too_long maxd (length s))
      else Inr (nat_of_digits s))"

text \<open>
  \<^verbatim>\<open>float(s)\<close> on digits with an optional fraction: the decimal value, correctly
  rounded; a value too large for a double gives \<^verbatim>\<open>inf\<close>, \<^verbatim>\<open>float\<close> of a string never
  overflows with an exception.
\<close>

definition decimal_value :: "string \<Rightarrow> real" where
  "decimal_value s =
     (case dropWhile is_digit s of
        [] \<Rightarrow> real (nat_of_digits s)
      | dot # fr \<Rightarrow>
          real (nat_of_digits (takeWhile is_digit s)) + real (nat_of_digits fr) / 10 ^ length fr)"

definition float_of_decimal :: "string \<Rightarrow> pyfloat" where
  "float_of_decimal s = round_to_double (decimal_value s)"

text \<open>
  The conversion of an \<^verbatim>\<open>int\<close> operand of a mixed \<^verbatim>\<open>int + float\<close>: correctly rounded,
  and \<^verbatim>\<open>OverflowError\<close> when the integer is too large for a double.
\<close>

definition float_of_int :: "nat \<Rightarrow> pyerr + pyfloat" where
  "float_of_int n =
     (case round_to_double (real n) of
        PosInf \<Rightarrow> Inl (''OverflowError'', ''int too large to convert to float'')
      | Finite x \<Rightarrow> Inr (Finite x))"

text \<open>
  \<^verbatim>\<open>_DURATION_RE = Duration:\s*(\d+):(\d+):(\d+(?:\.\d+)?)\<close>, matched at the start of a
  string; the result is the three groups. Each quantifier is followed by a character
  outside its class (a digit after \<^verbatim>\<open>\s*\<close>, a colon after \<^verbatim>\<open>\d+\<close>) or by nothing, so the
  greedy choice is the only one that can succeed and the matcher never backtracks:
  \<open>match_number_colon\<close> is \<^verbatim>\<open>(\d+):\<close> and returns the group and the rest,
  \<open>match_seconds\<close> is \<^verbatim>\<open>(\d+(?:\.\d+)?)\<close>.
\<close>

definition match_seconds :: "string \<Rightarrow> string option" where
  "match_seconds s =
     (let si = takeWhile is_digit s; r = dropWhile is_digit s
      in if si = [] then None
         else case r of
                c # r1 \<Rightarrow>
                  if c = CHR ''.'' \<and> takeWhile is_digit r1 \<noteq> []
                  then Some (si @ [CHR ''.''] @ takeWhile is_digit r1)
                  else Some si
              | [] \<Rightarrow> Some si)"

definition match_number_colon :: "string \<Rightarrow> (string \<times> string) option" where
  "match_number_colon s =
     (let ds = takeWhile is_digit s; r = dropWhile is_digit s
      in if ds = [] then None
         else case r of
                c # r1 \<Rightarrow> if c = CHR '':'' then Some (ds, r1) else None
              | [] \<Rightarrow> None)"

definition match_here :: "string \<Rightarrow> (string \<times> string \<times> string) option" where
  "match_here s =
     (if take 9 s = ''Duration:'' then
        (case match_number_colon (dropWhile is_space (drop 9 s)) of
           None \<Rightarrow> None
         | Some (hh, r1) \<Rightarrow>
            (case match_number_colon r1 of
               None \<Rightarrow> None
             | Some (mm, r2) \<Rightarrow>
                (case match_seconds r2 of
                   None \<Rightarrow> None
                 | Some ss \<Rightarrow> Some (hh, mm, ss))))
      else None)"

text \<open>\<^verbatim>\<open>_DURATION_RE.search\<close>: the match at the leftmost position that has one.\<close>

fun search :: "string \<Rightarrow> (string \<times> string \<times> string) option" where
  "search [] = match_here []"
| "search (c # cs) = (case match_here (c # cs) of Some g \<Rightarrow> Some g | None \<Rightarrow> search cs)"

text \<open>
  \<^verbatim>\<open>_parse_duration_from_ffmpeg_stderr\<close>: \<^verbatim>\<open>None\<close> on an empty text or without a match;
  otherwise \<^verbatim>\<open>int\<close> of the first two groups, \<^verbatim>\<open>float\<close> of the third, and
  \<^verbatim>\<open>hh * 3600 + mm * 60 + ss\<close>, an integer sum converted to a float and added to \<^verbatim>\<open>ss\<close>.
\<close>

definition parse_duration_from_ffmpeg_stderr :: "nat \<Rightarrow> string \<Rightarrow> pyerr + pyfloat option" where
  "parse_duration_from_ffmpeg_stderr maxd stderr_text =
     (if stderr_text = [] then Inr None
      else case search stderr_text of
             None \<Rightarrow> Inr None
           | Some (g1, g2, g3) \<Rightarrow>
              (case py_int maxd g1 of
                 Inl e \<Rightarrow> Inl e
               | Inr hh \<Rightarrow>
                  (case py_int maxd g2 of
                     Inl e \<Rightarrow> Inl e
                   | Inr mm \<Rightarrow>
                      (let ss = float_of_decimal g3
                       in case float_of_int (hh * 3600 + mm * 60) of
                            Inl e \<Rightarrow> Inl e
                          | Inr x \<Rightarrow> Inr (Some (float_add x ss))))))"

section \<open>The state: job table and file system\<close>

type_synonym path = "string list"

text \<open>
  What a file holds. \<open>Json v\<close> is a text that \<^verbatim>\<open>json.loads\<close> decodes to \<open>v\<close>
  (\<^verbatim>\<open>json.dumps\<close> writes such a text); \<open>Raw s\<close> is any other content: a video,
  a PDF, a plain text, a truncated document.
\<close>

datatype content = Json json | Raw string

record filesystem =
  files :: "path \<rightharpoonup> content"
  dirs :: "path set"

text \<open>One row of the table \<^verbatim>\<open>jobs\<close>; the primary key \<^verbatim>\<open>job_id\<close> is the key of
  the map that holds the rows.\<close>

record job_row =
  user_id :: string
  created_at_unix :: real
  original_filename :: "string option"
  upload_ext :: "string option"
  upload_path :: "string option"
  status :: string
  progress :: "real option"
  stage :: "string option"
  error_message :: "string option"
  overlay_url :: "string option"
  analysis_url :: "string option"
  practice_plan_url :: "string option"
  practice_plan_txt_url :: "string option"
  lesson_plan_url :: "string option"
  throws_detected :: "int option"

text \<open>
  A write issued to one of the two stores. \<open>RowWrite job_id st pr sg\<close> is an
  \<^verbatim>\<open>UPDATE\<close> of the row's status, progress and stage (\<open>None\<close>: the column keeps
  its value); \<open>DocWrite job_id payload\<close> is a write of the status document.
\<close>

datatype store_write =
    RowWrite string "string option" "real option" "string option"
  | DocWrite string json

text \<open>The state. \<open>writes\<close> is the journal of the writes issued to the two stores, in
  program order; no operation reads it.\<close>

record world =
  jobs :: "string \<rightharpoonup> job_row"
  disk :: filesystem
  writes :: "store_write list"

subsection \<open>SQLite helpers\<close>

text \<open>SQL's \<^verbatim>\<open>COALESCE(?, column)\<close>.\<close>

fun coalesce :: "'a option \<Rightarrow> 'a option \<Rightarrow> 'a option" where
  "coalesce (Some v) old = Some v"
| "coalesce None old = old"

definition db_insert_job ::
  "string \<Rightarrow> string \<Rightarrow> real \<Rightarrow> string \<Rightarrow> string \<Rightarrow> string \<Rightarrow> world \<Rightarrow> world" where
  "db_insert_job job_id uid created fname ext upath w =
     w\<lparr>jobs := (jobs w)(job_id \<mapsto>
        \<lparr>user_id = uid, created_at_unix = created, original_filename = Some fname,
         upload_ext = Some ext, upload_path = Some upath,
         status = ''queued'', progress = Some 0, stage = Some ''starting'',
         error_message = None, overlay_url = None, analysis_url = None,
         practice_plan_url = None, practice_plan_txt_url = None,
         lesson_plan_url = None, throws_detected = None\<rparr>)\<rparr>"

definition db_update_job_status ::
  "string \<Rightarrow> string option \<Rightarrow> real option \<Rightarrow> string option \<Rightarrow> world \<Rightarrow> world" where
  "db_update_job_status job_id st pr sg w =
     (let w1 = w\<lparr>writes := writes w @ [RowWrite job_id st pr sg]\<rparr>
      in case jobs w job_id of
           None \<Rightarrow> w1
         | Some r \<Rightarrow>
             w1\<lparr>jobs := (jobs w)(job_id \<mapsto>
                r\<lparr>status := (case st of None \<Rightarrow> status r | Some s \<Rightarrow> s),
                  progress := coalesce pr (progress r),
                  stage := coalesce sg (stage r)\<rparr>)\<rparr>)"

definition db_mark_job_failed :: "string \<Rightarrow> string \<Rightarrow> world \<Rightarrow> world" where
  "db_mark_job_failed job_id msg w =
     (let w1 = w\<lparr>writes := writes w
                  @ [RowWrite job_id (Some ''failed'') (Some 1) (Some ''failed'')]\<rparr>
      in case jobs w job_id of
           None \<Rightarrow> w1
         | Some r \<Rightarrow>
             w1\<lparr>jobs := (jobs w)(job_id \<mapsto>
                r\<lparr>status := ''failed'', progress := Some 1, stage := Some ''failed'',
                  error_message := Some msg\<rparr>)\<rparr>)"

definition db_mark_job_done ::
  "string \<Rightarrow> string option \<Rightarrow> string option \<Rightarrow> string option \<Rightarrow> string option
     \<Rightarrow> string option \<Rightarrow> int option \<Rightarrow> world \<Rightarrow> world" where
  "db_mark_job_done job_id ov an pp txt lp td w =
     (let w1 = w\<lparr>writes := writes w
                  @ [RowWrite job_id (Some ''done'') (Some 1) (Some ''done'')]\<rparr>
      in case jobs w job_id of
           None \<Rightarrow> w1
         | Some r \<Rightarrow>
             w1\<lparr>jobs := (jobs w)(job_id \<mapsto>
                r\<lparr>status := ''done'', progress := Some 1, stage := Some ''done'',
                  error_message := None, overlay_url := ov, analysis_url := an,
                  practice_plan_url := pp, practice_plan_txt_url := txt,
                  lesson_plan_url := lp, throws_detected := td\<rparr>)\<rparr>)"

subsection \<open>Job status files\<close>

definition RESULTS_DIR :: path where
  "RESULTS_DIR = [''results'']"

definition UPLOADS_DIR :: path where
  "UPLOADS_DIR = [''uploads'']"

definition job_dir :: "string \<Rightarrow> path" where
  "job_dir job_id = RESULTS_DIR @ [job_id]"

definition status_path :: "string \<Rightarrow> path" where
  "status_path job_id = job_dir job_id @ [''status.json'']"

text \<open>\<^verbatim>\<open>p.exists()\<close>: a file or a directory is there.\<close>

definition exists_path :: "filesystem \<Rightarrow> path \<Rightarrow> bool" where
  "exists_path d p = (files d p \<noteq> None \<or> p \<in> dirs d)"

text \<open>The proper ancestors of a path below \<^verbatim>\<open>ROOT\<close>, and \<^verbatim>\<open>mkdir(parents=True,
  exist_ok=True)\<close>.\<close>

fun ancestors :: "path \<Rightarrow> path list" where
  "ancestors [] = []"
| "ancestors (c # cs) = [c] # map ((#) c) (ancestors cs)"

definition mkdir_parents :: "path \<Rightarrow> filesystem \<Rightarrow> filesystem" where
  "mkdir_parents p d = d\<lparr>dirs := dirs d \<union> set (ancestors p)\<rparr>"

text \<open>\<^verbatim>\<open>json.loads(path.read_text())\<close>. A missing file raises
  \<^verbatim>\<open>FileNotFoundError\<close>, a directory \<^verbatim>\<open>IsADirectoryError\<close>, a content that is not
  JSON \<^verbatim>\<open>JSONDecodeError\<close>. The message of an exception that the Python library
  raises is not modelled: it is left empty.\<close>

definition read_json :: "filesystem \<Rightarrow> path \<Rightarrow> pyerr + json" where
  "read_json d p =
     (case files d p of
        None \<Rightarrow>
          Inl (if p \<in> dirs d then ''IsADirectoryError'' else ''FileNotFoundError'', [])
      | Some (Raw s) \<Rightarrow> Inl (''JSONDecodeError'', [])
      | Some (Json v) \<Rightarrow> Inr v)"

definition safe_read_json :: "filesystem \<Rightarrow> path \<Rightarrow> json" where
  "safe_read_json d p =
     (if \<not> exists_path d p then JNull
      else case read_json d p of Inl e \<Rightarrow> JNull | Inr v \<Rightarrow> v)"

definition write_status :: "string \<Rightarrow> json \<Rightarrow> world \<Rightarrow> world" where
  "write_status job_id payload w =
     (let d1 = mkdir_parents (job_dir job_id) (disk w)
      in w\<lparr>disk := d1\<lparr>files := (files d1)(status_path job_id \<mapsto> Json payload)\<rparr>,
           writes := writes w @ [DocWrite job_id payload]\<rparr>)"

definition queued_placeholder :: "string \<Rightarrow> json" where
  "queued_placeholder job_id =
     JObj [(''job_id'', JStr job_id), (''status'', JStr ''queued''), (''progress'', JReal 0),
           (''stage'', JStr ''starting''), (''started_at_unix'', JNull),
           (''finished_at_unix'', JNull), (''error'', JNull), (''result'', JNull)]"

definition not_found_marker :: "string \<Rightarrow> json" where
  "not_found_marker job_id = JObj [(''job_id'', JStr job_id), (''status'', JStr ''not_found'')]"

definition read_status :: "string \<Rightarrow> filesystem \<Rightarrow> pyerr + json" where
  "read_status job_id d =
     (let p = status_path job_id
      in if \<not> exists_path d p then
           (if exists_path d (job_dir job_id) then Inr (queued_placeholder job_id)
            else Inr (not_found_marker job_id))
         else read_json d p)"

text \<open>The handler of \<^verbatim>\<open>GET /jobs/{job_id}\<close> returns what \<open>read_status\<close> returns.\<close>

definition job :: "string \<Rightarrow> filesystem \<Rightarrow> pyerr + json" where
  "job job_id d = read_status job_id d"

definition results_url :: "string \<Rightarrow> string list \<Rightarrow> string" where
  "results_url job_id cs = ''/results/'' @ job_id @ concat (map ((@) ''/'') cs)"

definition infer_txt_url :: "string \<Rightarrow> filesystem \<Rightarrow> string option" where
  "infer_txt_url job_id d =
     (if exists_path d (job_dir job_id @ [''combined'', ''practice_plan.txt''])
      then Some (results_url job_id [''combined'', ''practice_plan.txt''])
      else None)"

definition pick_overlay_url :: "string \<Rightarrow> string \<Rightarrow> filesystem \<Rightarrow> string option" where
  "pick_overlay_url job_id view d =
     (let base = job_dir job_id @ [view];
          web = base @ [''overlay_release_web.mp4''];
          full = base @ [''overlay_release.mp4'']
      in if exists_path d web then Some (results_url job_id [view, ''overlay_release_web.mp4''])
         else if exists_path d full then Some (results_url job_id [view, ''overlay_release.mp4''])
         else None)"

section \<open>Saving an upload\<close>

text \<open>
  The upload is the sequence of results of the successive calls
  \<^verbatim>\<open>upload.file.read(1024 * 1024)\<close>: a chunk of bytes, or an exception. After the last
  element the stream is at its end and \<^verbatim>\<open>read\<close> returns the empty chunk.
\<close>

datatype read_result = Chunk string | ReadError string string

text \<open>
  The \<^verbatim>\<open>while True\<close> loop. \<open>written\<close> is the running byte count, \<open>out\<close> the chunks passed
  to \<^verbatim>\<open>f.write\<close> so far, in order: the destination file holds their concatenation. The
  loop ends normally, with the \<^verbatim>\<open>HTTPException\<close> for an upload that is too large, or
  with an exception of \<^verbatim>\<open>read\<close>; it also returns the part of the stream it has not read.
\<close>

datatype copy_outcome = Copied nat | TooLarge | Failed string string

fun copy_loop ::
  "read_result list \<Rightarrow> nat \<Rightarrow> nat \<Rightarrow> string list \<Rightarrow> copy_outcome \<times> string list \<times> read_result list" where
  "copy_loop [] max_bytes written out = (Copied written, out, [])"
| "copy_loop (ReadError cls msg # rest) max_bytes written out = (Failed cls msg, out, rest)"
| "copy_loop (Chunk chunk # rest) max_bytes written out =
     (if chunk = [] then (Copied written, out, rest)
      else if written + length chunk > max_bytes then (TooLarge, out, rest)
      else copy_loop rest max_bytes (written + length chunk) (out @ [chunk]))"

text \<open>Upload limits.\<close>

definition MAX_UPLOAD_BYTES :: nat where
  "MAX_UPLOAD_BYTES = 400 * 1024 * 1024"

text \<open>\<^verbatim>\<open>if dest.exists(): dest.unlink()\<close>, for a path that is not a directory.\<close>

definition unlink_if_exists :: "path \<Rightarrow> filesystem \<Rightarrow> filesystem" where
  "unlink_if_exists p d = (if exists_path d p then d\<lparr>files := (files d)(p := None)\<rparr> else d)"

text \<open>
  \<open>save_upload_with_limit\<close> returns the byte count or raises an \<open>HTTPException\<close>; its
  effects are the file system it leaves, the unread rest of the stream, and the chunks it
  wrote to the destination. \<^verbatim>\<open>dest.open("wb")\<close> creates the file, so on normal exit it holds
  the concatenation of the chunks written; both handlers remove it.
\<close>

record save_result =
  outcome :: "http_error + nat"
  disk_after_save :: filesystem
  unread :: "read_result list"
  write_log :: "string list"

definition save_upload_with_limit ::
  "read_result list \<Rightarrow> path \<Rightarrow> nat \<Rightarrow> filesystem \<Rightarrow> save_result" where
  "save_upload_with_limit stream dest max_bytes d =
     (let d1 = mkdir_parents (butlast dest) d;
          (res, out, rest) = copy_loop stream max_bytes 0 [];
          d2 = d1\<lparr>files := (files d1)(dest \<mapsto> Raw (concat out))\<rparr>
      in case res of
           Copied written \<Rightarrow>
             \<lparr>outcome = Inr written, disk_after_save = d2, unread = rest, write_log = out\<rparr>
         | TooLarge \<Rightarrow>
             \<lparr>outcome = Inl (HTTPException 413
                  (''File too large. Max is '' @ str_nat (max_bytes div (1024 * 1024)) @ ''MB.'')),
              disk_after_save = unlink_if_exists dest d2, unread = rest, write_log = out\<rparr>
         | Failed cls msg \<Rightarrow>
             \<lparr>outcome = Inl (HTTPException 500
                  (''Failed to save upload: '' @ cls @ '': '' @ msg)),
              disk_after_save = unlink_if_exists dest d2, unread = rest, write_log = out\<rparr>)"

section \<open>The environment\<close>

text \<open>
  What the program takes from outside: the result of each \<^verbatim>\<open>subprocess.run\<close> (exit
  code, captured output, and the file system the process leaves behind), the clock, the
  fresh job identifier, and what the Python library and the installation answer during
  admission: \<open>ffmpeg_exe\<close> is \<open>None\<close> when \<^verbatim>\<open>import imageio_ffmpeg\<close> fails, an exception
  when \<^verbatim>\<open>get_ffmpeg_exe()\<close> raises it, and else the path of the binary; \<open>ffprobe_exe\<close> is
  the path of its sibling \<^verbatim>\<open>ffprobe\<close> and \<open>ffprobe_present\<close> whether that file exists;
  \<open>py_float s\<close> is \<^verbatim>\<open>float(s.strip())\<close> on the output of \<^verbatim>\<open>ffprobe\<close> (\<open>None\<close> when it
  raises; the duration that \<^verbatim>\<open>ffprobe\<close> prints is taken to be non-negative);
  \<open>fmt_1f\<close> is the format \<^verbatim>\<open>.1f\<close>; \<open>suffix_lower name\<close> is
  \<^verbatim>\<open>Path(name).suffix.lower()\<close>; \<open>int_max_str_digits\<close> is the interpreter's limit on
  integer strings.
\<close>

record proc_result =
  returncode :: int
  stdout :: string
  stderr :: string
  disk_after :: filesystem

record env =
  root_str :: string
  sys_executable :: string
  subprocess_run :: "string list \<Rightarrow> filesystem \<Rightarrow> proc_result"
  time_created :: real
  time_started :: real
  time_finished :: real
  new_job_id :: string
  ffmpeg_exe :: "(pyerr + string) option"
  ffprobe_exe :: string
  ffprobe_present :: bool
  py_float :: "string \<Rightarrow> pyfloat option"
  fmt_1f :: "pyfloat \<Rightarrow> string"
  suffix_lower :: "string \<Rightarrow> string"
  int_max_str_digits :: nat

text \<open>\<^verbatim>\<open>str(ROOT / c1 / ... / cn)\<close>.\<close>

definition str_path :: "env \<Rightarrow> path \<Rightarrow> string" where
  "str_path env p = root_str env @ concat (map ((@) ''/'') p)"

definition RUN_ENGINE :: path where
  "RUN_ENGINE = [''run_engine.py'']"

definition COMBINE_VIEWS :: path where
  "COMBINE_VIEWS = [''combine_views.py'']"

definition BUILD_COMBINED :: path where
  "BUILD_COMBINED = [''build_combined_outputs.py'']"

section \<open>Background worker\<close>

text \<open>A step of the worker: it may raise, and it changes the state either way.\<close>

type_synonym 'a step = "world \<Rightarrow> (pyerr + 'a) \<times> world"

definition and_then :: "'a step \<Rightarrow> ('a \<Rightarrow> 'b step) \<Rightarrow> 'b step" where
  "and_then m f w = (case m w of (Inl e, w') \<Rightarrow> (Inl e, w') | (Inr x, w') \<Rightarrow> f x w')"

definition cmd_run_engine :: "env \<Rightarrow> path \<Rightarrow> path \<Rightarrow> string \<Rightarrow> bool \<Rightarrow> string list" where
  "cmd_run_engine env upload outdir model no_ai =
     [sys_executable env, ''-u'', str_path env RUN_ENGINE,
      ''--input'', str_path env upload, ''--outdir'', str_path env outdir, ''--model'', model]
     @ (if no_ai then [''--no-ai''] else [])"

definition run_single_view :: "env \<Rightarrow> string \<Rightarrow> string \<Rightarrow> path \<Rightarrow> string \<Rightarrow> bool \<Rightarrow> unit step" where
  "run_single_view env job_id view upload model no_ai w =
     (let outdir = job_dir job_id @ [view];
          d1 = mkdir_parents outdir (disk w);
          p = subprocess_run env (cmd_run_engine env upload outdir model no_ai) d1;
          w1 = w\<lparr>disk := disk_after p\<rparr>
      in if returncode p \<noteq> 0 then
           (Inl (''RuntimeError'',
                 view @ '' pipeline failed (exit '' @ str_int (returncode p)
                   @ ''). STDERR tail: '' @ str_tail 1200 (stderr p)), w1)
         else (Inr (), w1))"

text \<open>Step 1 of the worker for one view: nothing when the view was not uploaded.\<close>

definition stage_view ::
  "env \<Rightarrow> string \<Rightarrow> string \<Rightarrow> path option \<Rightarrow> real \<Rightarrow> string \<Rightarrow> string \<Rightarrow> bool \<Rightarrow> unit step" where
  "stage_view env job_id view upload pr label model no_ai w =
     (case upload of
        None \<Rightarrow> (Inr (), w)
      | Some up \<Rightarrow>
          run_single_view env job_id view up model no_ai
            (db_update_job_status job_id (Some ''running'') (Some pr) (Some label) w))"

definition cmd_combine :: "env \<Rightarrow> string \<Rightarrow> path option \<Rightarrow> path option \<Rightarrow> filesystem \<Rightarrow> string list" where
  "cmd_combine env job_id side_path front_path d =
     (let combined_analysis = job_dir job_id @ [''combined'', ''analysis.json''];
          side_analysis = job_dir job_id @ [''side'', ''analysis.json''];
          front_analysis = job_dir job_id @ [''front'', ''analysis.json'']
      in [sys_executable env, ''-u'', str_path env COMBINE_VIEWS,
          ''--out'', str_path env combined_analysis]
         @ (if side_path \<noteq> None \<and> exists_path d side_analysis
            then [''--side'', str_path env side_analysis] else [])
         @ (if front_path \<noteq> None \<and> exists_path d front_analysis
            then [''--front'', str_path env front_analysis] else []))"

definition stage_combine :: "env \<Rightarrow> string \<Rightarrow> path option \<Rightarrow> path option \<Rightarrow> unit step" where
  "stage_combine env job_id side_path front_path w =
     (let combined_dir = job_dir job_id @ [''combined''];
          w1 = w\<lparr>disk := mkdir_parents combined_dir (disk w)\<rparr>;
          w2 = db_update_job_status job_id (Some ''running'') (Some 0.75)
                 (Some ''combining_views'') w1;
          p = subprocess_run env (cmd_combine env job_id side_path front_path (disk w2)) (disk w2);
          w3 = w2\<lparr>disk := disk_after p\<rparr>
      in if returncode p \<noteq> 0 then
           (Inl (''RuntimeError'', ''combine_views failed. STDERR: '' @ str_tail 1200 (stderr p)), w3)
         else (Inr (), w3))"

definition cmd_build :: "env \<Rightarrow> string \<Rightarrow> string \<Rightarrow> bool \<Rightarrow> string list" where
  "cmd_build env job_id model no_ai =
     [sys_executable env, ''-u'', str_path env BUILD_COMBINED,
      ''--analysis'', str_path env (job_dir job_id @ [''combined'', ''analysis.json'']),
      ''--outdir'', str_path env (job_dir job_id @ [''combined'']), ''--model'', model]
     @ (if no_ai then [''--no-ai''] else [])"

definition stage_build :: "env \<Rightarrow> string \<Rightarrow> string \<Rightarrow> bool \<Rightarrow> unit step" where
  "stage_build env job_id model no_ai w =
     (let w1 = db_update_job_status job_id (Some ''running'') (Some 0.88)
                 (Some ''building_combined_outputs'') w;
          p = subprocess_run env (cmd_build env job_id model no_ai) (disk w1);
          w2 = w1\<lparr>disk := disk_after p\<rparr>
      in if returncode p \<noteq> 0 then
           (Inl (''RuntimeError'',
                 ''build_combined_outputs failed. STDERR: '' @ str_tail 1200 (stderr p)), w2)
         else (Inr (), w2))"

text \<open>\<^verbatim>\<open>a or b\<close> on two \<^verbatim>\<open>Optional[str]\<close>: the empty string counts as false.\<close>

definition str_or :: "string option \<Rightarrow> string option \<Rightarrow> string option" where
  "str_or a b = (case a of None \<Rightarrow> b | Some s \<Rightarrow> if s = [] then b else Some s)"

text \<open>\<^verbatim>\<open>v if isinstance(v, int) else None\<close>; a Python \<^verbatim>\<open>bool\<close> is an \<^verbatim>\<open>int\<close>.\<close>

fun int_or_none :: "json \<Rightarrow> int option" where
  "int_or_none (JInt i) = Some i"
| "int_or_none (JBool b) = Some (if b then 1 else 0)"
| "int_or_none v = None"

text \<open>The \<^verbatim>\<open>result\<close> object of the final status payload (steps 4 to 6 of the source),
  given the two overlay URLs and the values read from the combined directory.\<close>

definition result_payload ::
  "string \<Rightarrow> string option \<Rightarrow> string option \<Rightarrow> string option \<Rightarrow> json \<Rightarrow> json \<Rightarrow> json
     \<Rightarrow> bool \<Rightarrow> bool \<Rightarrow> json" where
  "result_payload job_id overlay_side overlay_front txt_url practice_plan_obj lesson_plan_obj
      summary has_side has_front =
     JObj [(''overlay_url'', opt_str (str_or overlay_side overlay_front)),
           (''overlay_side_url'', opt_str overlay_side),
           (''overlay_front_url'', opt_str overlay_front),
           (''analysis_url'', JStr (results_url job_id [''combined'', ''analysis.json''])),
           (''lesson_plan_url'', JStr (results_url job_id [''combined'', ''lesson_plan.json''])),
           (''practice_plan_pdf_url'', JStr (results_url job_id [''combined'', ''practice_plan.pdf''])),
           (''practice_plan_txt_url'', opt_str txt_url),
           (''practice_plan'', practice_plan_obj),
           (''lesson_plan'', lesson_plan_obj),
           (''analysis_summary'', summary),
           (''views'', JObj [(''side'', JBool has_side), (''front'', JBool has_front)])]"

definition status_payload ::
  "string \<Rightarrow> string \<Rightarrow> real \<Rightarrow> string \<Rightarrow> json \<Rightarrow> json \<Rightarrow> json \<Rightarrow> json \<Rightarrow> json" where
  "status_payload job_id st pr sg started finished err res =
     JObj [(''job_id'', JStr job_id), (''status'', JStr st), (''progress'', JReal pr),
           (''stage'', JStr sg), (''started_at_unix'', started),
           (''finished_at_unix'', finished), (''error'', err), (''result'', res)]"

text \<open>Steps 4 and 5 of the source: the overlay URLs, the report documents and the
  summary. \<open>collect_outputs\<close> returns the \<^verbatim>\<open>result\<close> object and the value of
  \<^verbatim>\<open>throws_detected\<close>, or raises where \<^verbatim>\<open>.get\<close> is applied to a value that is
  not a dict.\<close>

definition overlay_side_url :: "string \<Rightarrow> path option \<Rightarrow> filesystem \<Rightarrow> string option" where
  "overlay_side_url job_id side_path d =
     (if side_path \<noteq> None then pick_overlay_url job_id ''side'' d else None)"

definition overlay_front_url :: "string \<Rightarrow> path option \<Rightarrow> filesystem \<Rightarrow> string option" where
  "overlay_front_url job_id front_path d =
     (if front_path \<noteq> None then pick_overlay_url job_id ''front'' d else None)"

definition report_obj :: "string \<Rightarrow> string \<Rightarrow> filesystem \<Rightarrow> json" where
  "report_obj job_id name d =
     (if exists_path d (job_dir job_id @ [''combined'', name])
      then safe_read_json d (job_dir job_id @ [''combined'', name]) else JNull)"

definition collect_outputs ::
  "string \<Rightarrow> path option \<Rightarrow> path option \<Rightarrow> filesystem \<Rightarrow> pyerr + (json \<times> json)" where
  "collect_outputs job_id side_path front_path d =
     (let combined_obj =
            py_or (safe_read_json d (job_dir job_id @ [''combined'', ''analysis.json''])) (JObj [])
      in case py_get combined_obj ''summary'' of
           Inl e \<Rightarrow> Inl e
         | Inr s \<Rightarrow>
            (case py_get (py_or s (JObj [])) ''throws_detected'' of
               Inl e \<Rightarrow> Inl e
             | Inr td \<Rightarrow>
                Inr (result_payload job_id
                       (overlay_side_url job_id side_path d) (overlay_front_url job_id front_path d)
                       (infer_txt_url job_id d)
                       (report_obj job_id ''practice_plan.json'' d)
                       (report_obj job_id ''lesson_plan.json'' d)
                       (py_or s (JObj [])) (side_path \<noteq> None) (front_path \<noteq> None),
                     td)))"

text \<open>Step 6: the final status document, then the row.\<close>

definition stage_collect :: "env \<Rightarrow> string \<Rightarrow> path option \<Rightarrow> path option \<Rightarrow> unit step" where
  "stage_collect env job_id side_path front_path w =
     (case collect_outputs job_id side_path front_path (disk w) of
        Inl e \<Rightarrow> (Inl e, w)
      | Inr (res, td) \<Rightarrow>
         (case read_status job_id (disk w) of
            Inl e \<Rightarrow> (Inl e, w)
          | Inr st \<Rightarrow>
             (case py_get st ''started_at_unix'' of
                Inl e \<Rightarrow> (Inl e, w)
              | Inr started \<Rightarrow>
                 (Inr (),
                  db_mark_job_done job_id
                    (str_or (overlay_side_url job_id side_path (disk w))
                            (overlay_front_url job_id front_path (disk w)))
                    (Some (results_url job_id [''combined'', ''analysis.json'']))
                    (Some (results_url job_id [''combined'', ''practice_plan.pdf'']))
                    (infer_txt_url job_id (disk w))
                    (Some (results_url job_id [''combined'', ''lesson_plan.json'']))
                    (int_or_none td)
                    (write_status job_id
                       (status_payload job_id ''done'' 1 ''done'' started
                          (JReal (time_finished env)) JNull res) w)))))"

text \<open>The body of the \<^verbatim>\<open>try\<close> block.\<close>

definition pipeline ::
  "env \<Rightarrow> string \<Rightarrow> path option \<Rightarrow> path option \<Rightarrow> string \<Rightarrow> bool \<Rightarrow> unit step" where
  "pipeline env job_id side_path front_path model no_ai =
     and_then (stage_view env job_id ''side'' side_path 0.10 ''running_side'' model no_ai) (\<lambda>_.
     and_then (stage_view env job_id ''front'' front_path 0.45 ''running_front'' model no_ai) (\<lambda>_.
     and_then (stage_combine env job_id side_path front_path) (\<lambda>_.
     and_then (stage_build env job_id model no_ai) (\<lambda>_.
     stage_collect env job_id side_path front_path))))"

text \<open>The \<^verbatim>\<open>except Exception\<close> handler. An exception raised inside it leaves the
  worker: it is the first component of the result.\<close>

definition on_failure :: "env \<Rightarrow> string \<Rightarrow> pyerr \<Rightarrow> world \<Rightarrow> pyerr option \<times> world" where
  "on_failure env job_id e w =
     (let err_msg = fst e @ '': '' @ snd e;
          w1 = db_mark_job_failed job_id err_msg w
      in case read_status job_id (disk w1) of
           Inl e1 \<Rightarrow> (Some e1, w1)
         | Inr st \<Rightarrow>
            (case py_get st ''started_at_unix'' of
               Inl e2 \<Rightarrow> (Some e2, w1)
             | Inr started \<Rightarrow>
                (None,
                 write_status job_id
                   (status_payload job_id ''failed'' 1 ''failed'' started
                      (JReal (time_finished env)) (JObj [(''message'', JStr err_msg)]) JNull) w1)))"

definition start_background_job ::
  "env \<Rightarrow> string \<Rightarrow> path option \<Rightarrow> path option \<Rightarrow> string \<Rightarrow> bool \<Rightarrow> world
     \<Rightarrow> pyerr option \<times> world" where
  "start_background_job env job_id side_path front_path model no_ai w =
     (let w1 = write_status job_id
                 (status_payload job_id ''running'' 0.01 ''starting_worker''
                    (JReal (time_started env)) JNull JNull JNull) w;
          w2 = db_update_job_status job_id (Some ''running'') (Some 0.01)
                 (Some ''starting_worker'') w1
      in case pipeline env job_id side_path front_path model no_ai w2 of
           (Inr _, w3) \<Rightarrow> (None, w3)
         | (Inl e, w3) \<Rightarrow> on_failure env job_id e w3)"

section \<open>Reading the journal of writes\<close>

text \<open>The progress value and the status that a write carries.\<close>

fun write_progress :: "store_write \<Rightarrow> real option" where
  "write_progress (RowWrite _ _ pr _) = pr"
| "write_progress (DocWrite _ payload) =
     (case py_get payload ''progress'' of Inr (JReal r) \<Rightarrow> Some r | _ \<Rightarrow> None)"

fun write_state :: "store_write \<Rightarrow> string option" where
  "write_state (RowWrite _ st _ _) = st"
| "write_state (DocWrite _ payload) =
     (case py_get payload ''status'' of Inr (JStr s) \<Rightarrow> Some s | _ \<Rightarrow> None)"

text \<open>A terminal transition: a write whose status is \<open>done\<close> or \<open>failed\<close>.\<close>

definition terminal :: "store_write \<Rightarrow> bool" where
  "terminal x = (write_state x = Some ''done'' \<or> write_state x = Some ''failed'')"

text \<open>The progress values of a sequence of writes, in order.\<close>

definition progress_values :: "store_write list \<Rightarrow> real list" where
  "progress_values ws = List.map_filter write_progress ws"

text \<open>Auxiliary notions for the proofs: the writes of a run that reaches the end of
  the report stage, a write whose progress lies in a range, and the shape of a whole run.\<close>

definition running_writes :: "string \<Rightarrow> path option \<Rightarrow> path option \<Rightarrow> store_write list" where
  "running_writes j sp fp =
     (case sp of None \<Rightarrow> [] | Some _ \<Rightarrow> [RowWrite j (Some ''running'') (Some 0.10) (Some ''running_side'')])
     @ (case fp of None \<Rightarrow> [] | Some _ \<Rightarrow> [RowWrite j (Some ''running'') (Some 0.45) (Some ''running_front'')])
     @ [RowWrite j (Some ''running'') (Some 0.75) (Some ''combining_views''),
        RowWrite j (Some ''running'') (Some 0.88) (Some ''building_combined_outputs'')]"

definition carries :: "real \<Rightarrow> real \<Rightarrow> store_write \<Rightarrow> bool" where
  "carries lo hi x = (case write_progress x of None \<Rightarrow> False | Some p \<Rightarrow> lo \<le> p \<and> p \<le> hi)"

definition good_run :: "store_write list \<Rightarrow> bool" where
  "good_run new =
     (new \<noteq> []
      \<and> sorted (progress_values new)
      \<and> (\<forall>x\<in>set new. carries 0 1 x)
      \<and> (\<forall>x\<in>set new. terminal x \<longrightarrow> write_progress x = Some 1)
      \<and> terminal (last new))"

text \<open>What a poller of \<^verbatim>\<open>GET /jobs/{job_id}\<close> finds under a key of the \<^verbatim>\<open>result\<close>
  object of the served status payload.\<close>

definition served_result_field :: "string \<Rightarrow> filesystem \<Rightarrow> string \<Rightarrow> pyerr + json" where
  "served_result_field job_id d k =
     (case job job_id d of
        Inl e \<Rightarrow> Inl e
      | Inr doc \<Rightarrow> (case py_get doc ''result'' of Inl e \<Rightarrow> Inl e | Inr res \<Rightarrow> py_get res k))"

text \<open>Two file systems that agree on every path of more than three components: the
  files below a job's per-view and combined directories.\<close>

definition same_long_paths :: "filesystem \<Rightarrow> filesystem \<Rightarrow> bool" where
  "same_long_paths d' d =
     (\<forall>p. length p > 3 \<longrightarrow> files d' p = files d p \<and> (p \<in> dirs d') = (p \<in> dirs d))"

text \<open>Auxiliary notions for following a two-view run stage by stage: the status
  document written when the worker starts, a state reached by stages that all succeeded,
  the file system that the report builder is started on, and the report builder's run.\<close>

definition running_payload :: "env \<Rightarrow> string \<Rightarrow> json" where
  "running_payload env j = status_payload j ''running'' 0.01 ''starting_worker''
                    (JReal (time_started env)) JNull JNull JNull"

definition step_ok :: "string \<Rightarrow> world \<Rightarrow> store_write list \<Rightarrow> string \<Rightarrow> real \<Rightarrow> world \<Rightarrow> bool" where
  "step_ok j w0 ws lbl pr w =
     (writes w = writes w0 @ ws
      \<and> jobs w j = map_option (\<lambda>r. r\<lparr>status := ''running'', progress := Some pr, stage := Some lbl\<rparr>) (jobs w0 j)
      \<and> files (disk w) (status_path j) = files (disk w0) (status_path j))"

definition disk_before_build ::
  "env \<Rightarrow> string \<Rightarrow> path \<Rightarrow> path \<Rightarrow> string \<Rightarrow> bool \<Rightarrow> filesystem \<Rightarrow> filesystem" where
  "disk_before_build env j s f m n d0 =
     (let d1 = disk_after (subprocess_run env (cmd_run_engine env s (job_dir j @ [''side'']) m n)
                 (mkdir_parents (job_dir j @ [''side'']) d0));
          d2 = disk_after (subprocess_run env (cmd_run_engine env f (job_dir j @ [''front'']) m n)
                 (mkdir_parents (job_dir j @ [''front'']) d1));
          d3 = mkdir_parents (job_dir j @ [''combined'']) d2
      in disk_after (subprocess_run env (cmd_combine env j (Some s) (Some f) d3) d3))"

definition build_proc :: "env \<Rightarrow> string \<Rightarrow> path \<Rightarrow> path \<Rightarrow> string \<Rightarrow> bool \<Rightarrow> world \<Rightarrow> proc_result" where
  "build_proc env j s f m n w =
     subprocess_run env (cmd_build env j m n)
       (disk_before_build env j s f m n
          (mkdir_parents (job_dir j) (disk w)\<lparr>files := (files (disk w))(status_path j \<mapsto> Json (running_payload env j))\<rparr>))"

section \<open>The duration pattern, declaratively\<close>

text \<open>
  The language of the pattern, independent of the matcher: \<open>digits1\<close> is \<^verbatim>\<open>\d+\<close>,
  \<open>spaces\<close> is \<^verbatim>\<open>\s*\<close>, \<open>seconds_text\<close> is \<^verbatim>\<open>\d+(?:\.\d+)?\<close>;
  \<open>duration_match inp pre hh mm ss\<close> says that the pattern matches \<open>inp\<close> right after the
  prefix \<open>pre\<close> with the groups \<open>hh\<close>, \<open>mm\<close> and \<open>ss\<close>; \<open>has_match_at inp k\<close> that it matches
  at offset \<open>k\<close>.
\<close>

definition digits1 :: "string \<Rightarrow> bool" where
  "digits1 s = (s \<noteq> [] \<and> (\<forall>c\<in>set s. is_digit c))"

definition spaces :: "string \<Rightarrow> bool" where
  "spaces s = (\<forall>c\<in>set s. is_space c)"

definition seconds_text :: "string \<Rightarrow> bool" where
  "seconds_text s = (digits1 s \<or> (\<exists>i f. s = i @ ''.'' @ f \<and> digits1 i \<and> digits1 f))"

definition duration_match :: "string \<Rightarrow> string \<Rightarrow> string \<Rightarrow> string \<Rightarrow> string \<Rightarrow> bool" where
  "duration_match text pre hh mm ss =
     (\<exists>ws rest. text = pre @ ''Duration:'' @ ws @ hh @ '':'' @ mm @ '':'' @ ss @ rest
        \<and> spaces ws \<and> digits1 hh \<and> digits1 mm \<and> seconds_text ss)"

definition has_match_at :: "string \<Rightarrow> nat \<Rightarrow> bool" where
  "has_match_at text k = (\<exists>pre hh mm ss. length pre = k \<and> duration_match text pre hh mm ss)"

text \<open>
  The first match: the leftmost position at which the pattern matches, with the longest
  seconds group there. \<open>seconds_parts ss si fr\<close> splits a seconds group into its integer
  digits and its fraction digits (none when there is no fraction).
\<close>

definition seconds_parts :: "string \<Rightarrow> string \<Rightarrow> string \<Rightarrow> bool" where
  "seconds_parts ss si fr =
     (digits1 si \<and> (fr = [] \<and> ss = si \<or> digits1 fr \<and> ss = si @ ''.'' @ fr))"

definition first_match :: "string \<Rightarrow> string \<Rightarrow> string \<Rightarrow> string \<Rightarrow> string \<Rightarrow> bool" where
  "first_match inp pre hh mm ss =
     (duration_match inp pre hh mm ss
      \<and> (\<forall>k<length pre. \<not> has_match_at inp k)
      \<and> (\<forall>ss'. duration_match inp pre hh mm ss' \<longrightarrow> length ss' \<le> length ss))"

text \<open>
  The number that a string of decimal digits denotes, by the positions of its digits;
  the value of a digit is its index in \<^verbatim>\<open>0123456789\<close>.
\<close>

definition digit_of :: "char \<Rightarrow> nat" where
  "digit_of c = length (takeWhile (\<lambda>d. d \<noteq> c) ''0123456789'') mod 10"

fun digits_value :: "string \<Rightarrow> nat" where
  "digits_value [] = 0"
| "digits_value (c # cs) = digit_of c * 10 ^ length cs + digits_value cs"

section \<open>Concrete inputs\<close>

definition example_row :: job_row where
  "example_row =
     \<lparr>user_id = ''dev_user'', created_at_unix = 1700000000, original_filename = Some ''a.mov'',
      upload_ext = Some ''.mov'', upload_path = Some ''uploads/j1_side.mov'',
      status = ''done'', progress = Some 0.45, stage = Some ''running_front'',
      error_message = None, overlay_url = Some ''/results/j1/side/overlay_release.mp4'',
      analysis_url = None, practice_plan_url = None, practice_plan_txt_url = None,
      lesson_plan_url = None, throws_detected = Some 3\<rparr>"

definition example_world :: world where
  "example_world =
     \<lparr>jobs = [''j1'' \<mapsto> example_row], disk = \<lparr>files = Map.empty, dirs = {}\<rparr>, writes = []\<rparr>"

text \<open>
  A two-view job \<open>j1\<close> and external processes for it: the per-view analysis writes an
  analysis document and overlays (the side view only the full-size overlay, the front
  view both variants), the combiner writes the combined analysis, and the report builder
  either fails with exit code 1 or writes a practice plan, a lesson plan that is cut
  short, and a PDF.
\<close>

definition demo_run :: "bool \<Rightarrow> string list \<Rightarrow> filesystem \<Rightarrow> proc_result" where
  "demo_run build_ok cmd d =
     (case cmd of
        exe # u # script # rest \<Rightarrow>
          if script = ''/app/run_engine.py'' then
            (if ''/app/results/j1/side'' \<in> set rest then
               \<lparr>returncode = 0, stdout = [], stderr = [],
                disk_after = d\<lparr>files := (files d)
                  ([''results'', ''j1'', ''side'', ''analysis.json''] \<mapsto> Json (JObj [(''view'', JStr ''side'')]),
                   [''results'', ''j1'', ''side'', ''overlay_release.mp4''] \<mapsto> Raw ''mp4'')\<rparr>\<rparr>
             else
               \<lparr>returncode = 0, stdout = [], stderr = [],
                disk_after = d\<lparr>files := (files d)
                  ([''results'', ''j1'', ''front'', ''analysis.json''] \<mapsto> Json (JObj [(''view'', JStr ''front'')]),
                   [''results'', ''j1'', ''front'', ''overlay_release.mp4''] \<mapsto> Raw ''mp4'',
                   [''results'', ''j1'', ''front'', ''overlay_release_web.mp4''] \<mapsto> Raw ''web'')\<rparr>\<rparr>)
          else if script = ''/app/combine_views.py'' then
            \<lparr>returncode = 0, stdout = [], stderr = [],
             disk_after = d\<lparr>files := (files d)
               ([''results'', ''j1'', ''combined'', ''analysis.json''] \<mapsto>
                   Json (JObj [(''summary'', JObj [(''throws_detected'', JInt 3)])]))\<rparr>\<rparr>
          else if script = ''/app/build_combined_outputs.py'' \<and> build_ok then
            \<lparr>returncode = 0, stdout = [], stderr = [],
             disk_after = d\<lparr>files := (files d)
               ([''results'', ''j1'', ''combined'', ''practice_plan.json''] \<mapsto>
                   Json (JObj [(''drills'', JArr [JStr ''grip'', JStr ''stance''])]),
                [''results'', ''j1'', ''combined'', ''lesson_plan.json''] \<mapsto> Raw ''{'',
                [''results'', ''j1'', ''combined'', ''practice_plan.pdf''] \<mapsto> Raw ''%PDF'')\<rparr>\<rparr>
          else \<lparr>returncode = 1, stdout = [], stderr = ''boom'', disk_after = d\<rparr>
      | _ \<Rightarrow> \<lparr>returncode = 2, stdout = [], stderr = ''usage'', disk_after = d\<rparr>)"

definition demo_env :: "bool \<Rightarrow> env" where
  "demo_env build_ok =
     \<lparr>root_str = ''/app'', sys_executable = ''python'', subprocess_run = demo_run build_ok,
      time_created = 1700000000, time_started = 1700000001, time_finished = 1700000060,
      new_job_id = ''j1'', ffmpeg_exe = Some (Inr ''/usr/bin/ffmpeg''),
      ffprobe_exe = ''/usr/bin/ffprobe'', ffprobe_present = False,
      py_float = (\<lambda>s. None), fmt_1f = (\<lambda>r. ''?''), suffix_lower = (\<lambda>name. []),
      int_max_str_digits = 4300\<rparr>"

definition demo_world :: world where
  "demo_world =
     \<lparr>jobs = [''j1'' \<mapsto>
        \<lparr>user_id = ''dev_user'', created_at_unix = 1700000000, original_filename = Some ''a.mov'',
         upload_ext = Some ''.mov'', upload_path = Some ''/app/uploads/j1_side.mov'',
         status = ''queued'', progress = Some 0, stage = Some ''starting'',
         error_message = None, overlay_url = None, analysis_url = None,
         practice_plan_url = None, practice_plan_txt_url = None,
         lesson_plan_url = None, throws_detected = None\<rparr>],
      disk = \<lparr>files = [[''uploads'', ''j1_side.mov''] \<mapsto> Raw ''side'',
                       [''uploads'', ''j1_front.mov''] \<mapsto> Raw ''front'',
                       [''results'', ''j1'', ''status.json''] \<mapsto> Json (queued_placeholder ''j1'')],
              dirs = {[''uploads''], [''results''], [''results'', ''j1'']}\<rparr>,
      writes = []\<rparr>"

definition demo_side :: path where
  "demo_side = [''uploads'', ''j1_side.mov'']"

definition demo_front :: path where
  "demo_front = [''uploads'', ''j1_front.mov'']"

text \<open>The state after the run of job \<open>j1\<close> in which every process succeeds.\<close>

definition demo_done :: world where
  "demo_done = snd (start_background_job (demo_env True) ''j1'' (Some demo_side) (Some demo_front)
                      ''gpt-5-mini'' False demo_world)"




definition fs_empty :: filesystem where
  "fs_empty = \<lparr>files = Map.empty, dirs = {[''results'']}\<rparr>"

text \<open>A line as \<^verbatim>\<open>ffmpeg -i\<close> prints it.\<close>

definition ffmpeg_banner :: string where
  "ffmpeg_banner = ''  Duration: 01:02:03.45, start: 0.000000, bitrate: 1 kb/s''"

section \<open>Properties of the job store\<close>

text \<open>
  Claim C6. From every prior row state, \<open>db_mark_job_failed\<close> sets the row's status to
  \<open>failed\<close>, overwrites progress to 1.0 and stage to \<open>failed\<close>, and records the message as
  \<open>error_message\<close>, whatever the row's status, progress and stage were. The other columns
  and the other rows keep their values.
\<close>

theorem db_mark_job_failed_overwrites:
  assumes "jobs w job_id = Some r"
  shows "\<exists>r'. jobs (db_mark_job_failed job_id msg w) job_id = Some r'
           \<and> status r' = ''failed'' \<and> progress r' = Some 1 \<and> stage r' = Some ''failed''
           \<and> error_message r' = Some msg
           \<and> r' = r\<lparr>status := ''failed'', progress := Some 1, stage := Some ''failed'',
                     error_message := Some msg\<rparr>
           \<and> (\<forall>other. other \<noteq> job_id \<longrightarrow>
                 jobs (db_mark_job_failed job_id msg w) other = jobs w other)"
  using assms by (simp add: db_mark_job_failed_def)

theorem db_mark_job_failed_overwrites_witness:
  "jobs example_world ''j1'' = Some example_row
   \<and> (\<exists>r'. jobs (db_mark_job_failed ''j1'' ''RuntimeError: boom'' example_world) ''j1'' = Some r'
         \<and> status r' = ''failed'' \<and> progress r' = Some 1 \<and> stage r' = Some ''failed''
         \<and> error_message r' = Some ''RuntimeError: boom''
         \<and> overlay_url r' = Some ''/results/j1/side/overlay_release.mp4''
         \<and> throws_detected r' = Some 3)"
proof -
  have h: "jobs example_world ''j1'' = Some example_row"
    by (simp add: example_world_def)
  from db_mark_job_failed_overwrites [OF h, of "''RuntimeError: boom''"]
  obtain r' where
    r: "jobs (db_mark_job_failed ''j1'' ''RuntimeError: boom'' example_world) ''j1'' = Some r'"
       "status r' = ''failed''" "progress r' = Some 1" "stage r' = Some ''failed''"
       "error_message r' = Some ''RuntimeError: boom''"
       "r' = example_row\<lparr>status := ''failed'', progress := Some 1, stage := Some ''failed'',
                error_message := Some ''RuntimeError: boom''\<rparr>"
    by blast
  from r(6) have "overlay_url r' = Some ''/results/j1/side/overlay_release.mp4''"
    and "throws_detected r' = Some 3"
    by (simp_all add: example_row_def)
  with h r show ?thesis by blast
qed

text \<open>
  Claim C7. In \<open>db_update_job_status\<close> each of status, progress and stage is updated
  only if its argument is not null; a null argument leaves the column as it was
  (\<^verbatim>\<open>COALESCE\<close>); every other column of the row, and every other row, is unchanged.
\<close>

theorem db_update_job_status_coalesce:
  assumes "jobs w job_id = Some r"
  shows "\<exists>r'. jobs (db_update_job_status job_id st pr sg w) job_id = Some r'
           \<and> status r' = (case st of None \<Rightarrow> status r | Some s \<Rightarrow> s)
           \<and> progress r' = (case pr of None \<Rightarrow> progress r | Some p \<Rightarrow> Some p)
           \<and> stage r' = (case sg of None \<Rightarrow> stage r | Some s \<Rightarrow> Some s)
           \<and> user_id r' = user_id r \<and> created_at_unix r' = created_at_unix r
           \<and> original_filename r' = original_filename r
           \<and> upload_ext r' = upload_ext r \<and> upload_path r' = upload_path r
           \<and> error_message r' = error_message r
           \<and> overlay_url r' = overlay_url r \<and> analysis_url r' = analysis_url r
           \<and> practice_plan_url r' = practice_plan_url r
           \<and> practice_plan_txt_url r' = practice_plan_txt_url r
           \<and> lesson_plan_url r' = lesson_plan_url r
           \<and> throws_detected r' = throws_detected r
           \<and> (\<forall>other. other \<noteq> job_id \<longrightarrow>
                 jobs (db_update_job_status job_id st pr sg w) other = jobs w other)"
  using assms
  by (cases pr; cases sg) (simp_all add: db_update_job_status_def split: option.splits)

theorem db_update_job_status_coalesce_witness:
  "jobs example_world ''j1'' = Some example_row
   \<and> (\<exists>r'. jobs (db_update_job_status ''j1'' None (Some 0.75) None example_world) ''j1''
              = Some r'
         \<and> status r' = ''done'' \<and> progress r' = Some 0.75 \<and> stage r' = Some ''running_front''
         \<and> error_message r' = None \<and> throws_detected r' = Some 3)"
proof -
  have h: "jobs example_world ''j1'' = Some example_row"
    by (simp add: example_world_def)
  from db_update_job_status_coalesce [OF h, of None "Some 0.75" None]
  obtain r' where
    r: "jobs (db_update_job_status ''j1'' None (Some 0.75) None example_world) ''j1'' = Some r'"
       "status r' = status example_row" "progress r' = Some 0.75"
       "stage r' = stage example_row" "error_message r' = error_message example_row"
       "throws_detected r' = throws_detected example_row"
    by auto
  then show ?thesis using h by (simp add: example_row_def)
qed

section \<open>The journal of a worker run\<close>

lemma stage_view_writes:
  "stage_view env j v up pr lbl m n w = (r, w') \<Longrightarrow>
     writes w' = writes w @ (case up of None \<Rightarrow> [] | Some _ \<Rightarrow> [RowWrite j (Some ''running'') (Some pr) (Some lbl)])"
  by (auto simp: stage_view_def run_single_view_def db_update_job_status_def Let_def split: option.splits if_splits)

lemma stage_combine_writes:
  "stage_combine env j sp fp w = (r, w') \<Longrightarrow>
     writes w' = writes w @ [RowWrite j (Some ''running'') (Some 0.75) (Some ''combining_views'')]"
  by (auto simp: stage_combine_def db_update_job_status_def Let_def split: option.splits if_splits)

lemma stage_build_writes:
  "stage_build env j m n w = (r, w') \<Longrightarrow>
     writes w' = writes w @ [RowWrite j (Some ''running'') (Some 0.88) (Some ''building_combined_outputs'')]"
  by (auto simp: stage_build_def db_update_job_status_def Let_def split: option.splits if_splits)

lemma stage_collect_writes:
  "stage_collect env j sp fp w = (r, w') \<Longrightarrow>
     (case r of Inl e \<Rightarrow> w' = w
      | Inr _ \<Rightarrow> (\<exists>payload. writes w' = writes w @ [DocWrite j payload, RowWrite j (Some ''done'') (Some 1) (Some ''done'')]
            \<and> py_get payload ''progress'' = Inr (JReal 1) \<and> py_get payload ''status'' = Inr (JStr ''done'')))"
  by (auto simp: stage_collect_def db_mark_job_done_def write_status_def status_payload_def Let_def
           split: option.splits sum.splits prod.splits)

lemma pipeline_writes:
  assumes "pipeline env j sp fp m n w = (r, w')"
  shows "case r of
           Inl e \<Rightarrow> (\<exists>pre suf. running_writes j sp fp = pre @ suf \<and> writes w' = writes w @ pre)
         | Inr _ \<Rightarrow> (\<exists>payload. writes w' = writes w @ running_writes j sp fp
                        @ [DocWrite j payload, RowWrite j (Some ''done'') (Some 1) (Some ''done'')]
                      \<and> py_get payload ''progress'' = Inr (JReal 1)
                      \<and> py_get payload ''status'' = Inr (JStr ''done''))"
proof -
  define A where "A = (case sp of None \<Rightarrow> [] | Some _ \<Rightarrow> [RowWrite j (Some ''running'') (Some 0.10) (Some ''running_side'')])"
  define B where "B = (case fp of None \<Rightarrow> [] | Some _ \<Rightarrow> [RowWrite j (Some ''running'') (Some 0.45) (Some ''running_front'')])"
  define C where "C = RowWrite j (Some ''running'') (Some 0.75) (Some ''combining_views'')"
  define D where "D = RowWrite j (Some ''running'') (Some 0.88) (Some ''building_combined_outputs'')"
  have rw: "running_writes j sp fp = A @ B @ [C, D]"
    by (simp add: running_writes_def A_def B_def C_def D_def)
  have partial: "\<exists>pre suf. running_writes j sp fp = pre @ suf \<and> writes v = writes w @ pre"
    if "writes v = writes w @ pre0" "running_writes j sp fp = pre0 @ suf0" for v pre0 suf0
    using that by blast
  obtain r1 w1 where s1: "stage_view env j ''side'' sp 0.10 ''running_side'' m n w = (r1, w1)"
    by (cases "stage_view env j ''side'' sp 0.10 ''running_side'' m n w")
  from stage_view_writes [OF s1] have w1: "writes w1 = writes w @ A" by (simp add: A_def)
  show ?thesis
  proof (cases r1)
    case (Inl e)
    with assms s1 have "r = Inl e" "w' = w1" by (simp_all add: pipeline_def and_then_def)
    moreover have "running_writes j sp fp = A @ (B @ [C, D])" by (simp add: rw)
    ultimately show ?thesis using partial [OF w1] by simp
  next
    case (Inr u1)
    note Inr1 = this
    obtain r2 w2 where s2: "stage_view env j ''front'' fp 0.45 ''running_front'' m n w1 = (r2, w2)"
      by (cases "stage_view env j ''front'' fp 0.45 ''running_front'' m n w1")
    from stage_view_writes [OF s2] w1 have w2: "writes w2 = writes w @ (A @ B)" by (simp add: B_def)
    show ?thesis
    proof (cases r2)
      case (Inl e)
      with assms s1 s2 Inr1 have "r = Inl e" "w' = w2" by (simp_all add: pipeline_def and_then_def)
      moreover have "running_writes j sp fp = (A @ B) @ [C, D]" by (simp add: rw)
      ultimately show ?thesis using partial [OF w2] by simp
    next
      case (Inr u2)
      note Inr2 = this
      obtain r3 w3 where s3: "stage_combine env j sp fp w2 = (r3, w3)"
        by (cases "stage_combine env j sp fp w2")
      from stage_combine_writes [OF s3] w2 have w3: "writes w3 = writes w @ (A @ B @ [C])"
        by (simp add: C_def)
      show ?thesis
      proof (cases r3)
        case (Inl e)
        with assms s1 s2 s3 Inr1 Inr2 have "r = Inl e" "w' = w3"
          by (simp_all add: pipeline_def and_then_def)
        moreover have "running_writes j sp fp = (A @ B @ [C]) @ [D]" by (simp add: rw)
        ultimately show ?thesis using partial [OF w3] by simp
      next
        case (Inr u3)
        note Inr3 = this
        obtain r4 w4 where s4: "stage_build env j m n w3 = (r4, w4)"
          by (cases "stage_build env j m n w3")
        from stage_build_writes [OF s4] w3 have w4: "writes w4 = writes w @ running_writes j sp fp"
          by (simp add: rw D_def)
        have full: "running_writes j sp fp = running_writes j sp fp @ []" by simp
        show ?thesis
        proof (cases r4)
          case (Inl e)
          with assms s1 s2 s3 s4 Inr1 Inr2 Inr3 have "r = Inl e" "w' = w4"
            by (simp_all add: pipeline_def and_then_def)
          then show ?thesis using partial [OF w4 full] by simp
        next
          case (Inr u4)
          with assms s1 s2 s3 s4 Inr1 Inr2 Inr3
          have s5: "stage_collect env j sp fp w4 = (r, w')"
            by (simp add: pipeline_def and_then_def)
          show ?thesis
          proof (cases r)
            case (Inl e)
            with stage_collect_writes [OF s5] have "w' = w4" by simp
            then show ?thesis using partial [OF w4 full] Inl by simp
          next
            case (Inr u5)
            with stage_collect_writes [OF s5] w4 show ?thesis by auto
          qed
        qed
      qed
    qed
  qed
qed


lemma on_failure_writes:
  assumes "on_failure env j e w = (r, w')"
  shows "writes w' = writes w @ [RowWrite j (Some ''failed'') (Some 1) (Some ''failed'')]
         \<or> (\<exists>payload. writes w' = writes w @ [RowWrite j (Some ''failed'') (Some 1) (Some ''failed''),
                                               DocWrite j payload]
               \<and> py_get payload ''progress'' = Inr (JReal 1)
               \<and> py_get payload ''status'' = Inr (JStr ''failed''))"
  using assms
  by (auto simp: on_failure_def db_mark_job_failed_def write_status_def status_payload_def Let_def
           split: option.splits sum.splits)

lemma progress_values_append:
  "progress_values (xs @ ys) = progress_values xs @ progress_values ys"
  by (simp add: progress_values_def List.map_filter_def)

lemma progress_values_Cons:
  "progress_values (x # xs) =
     (case write_progress x of None \<Rightarrow> progress_values xs | Some p \<Rightarrow> p # progress_values xs)"
  by (simp add: progress_values_def List.map_filter_def split: option.splits)

lemma progress_values_Nil: "progress_values [] = []"
  by (simp add: progress_values_def List.map_filter_def)

lemma running_writes_sorted: "sorted (progress_values (running_writes j sp fp))"
  by (cases sp; cases fp)
     (simp_all add: running_writes_def progress_values_Cons progress_values_Nil)

lemma carries_RowWrite [simp]:
  "carries lo hi (RowWrite j st (Some p) sg) = (lo \<le> p \<and> p \<le> hi)"
  by (simp add: carries_def)

lemma carriesD: "carries lo hi x \<Longrightarrow> \<exists>p. write_progress x = Some p \<and> lo \<le> p \<and> p \<le> hi"
  by (auto simp: carries_def split: option.splits)

lemma running_writes_each:
  "x \<in> set (running_writes j sp fp) \<Longrightarrow> carries 0.1 0.88 x \<and> \<not> terminal x"
  by (cases sp; cases fp) (auto simp: running_writes_def terminal_def)

lemma progress_values_set:
  "p \<in> set (progress_values xs) \<Longrightarrow> \<exists>x\<in>set xs. write_progress x = Some p"
  by (auto simp: progress_values_def List.map_filter_def)

lemma progress_values_carries:
  assumes "\<And>x. x \<in> set xs \<Longrightarrow> carries lo hi x" "p \<in> set (progress_values xs)"
  shows "lo \<le> p \<and> p \<le> hi"
proof -
  from progress_values_set [OF assms(2)] obtain x where "x \<in> set xs" "write_progress x = Some p"
    by blast
  with assms(1) [of x] show ?thesis by (simp add: carries_def)
qed

lemma sorted_between:
  fixes xs :: "real list"
  shows "(\<And>p. p \<in> set xs \<Longrightarrow> p = c) \<Longrightarrow> sorted xs"
  by (induction xs) auto

lemma running_prefix:
  assumes "running_writes j sp fp = pre @ suf"
  shows "sorted (progress_values pre)"
    and "\<And>x. x \<in> set pre \<Longrightarrow> carries 0.1 0.88 x \<and> \<not> terminal x"
proof -
  have "sorted (progress_values pre @ progress_values suf)"
    using running_writes_sorted [of j sp fp] assms by (simp add: progress_values_append)
  then show "sorted (progress_values pre)" by (simp add: sorted_append)
  show "\<And>x. x \<in> set pre \<Longrightarrow> carries 0.1 0.88 x \<and> \<not> terminal x"
    using running_writes_each [of _ j sp fp] assms by simp
qed

lemma good_run_shape:
  assumes pre: "sorted (progress_values pre)"
    and bounds: "\<And>x. x \<in> set pre \<Longrightarrow> carries 0.1 0.88 x \<and> \<not> terminal x"
    and h: "write_progress h1 = Some 0.01" "\<not> terminal h1" "write_progress h2 = Some 0.01" "\<not> terminal h2"
    and fin: "fin \<noteq> []" "\<And>x. x \<in> set fin \<Longrightarrow> write_progress x = Some 1 \<and> terminal x"
  shows "good_run ([h1, h2] @ pre @ fin)"
proof -
  have fin1: "\<And>p. p \<in> set (progress_values fin) \<Longrightarrow> p = 1"
    using progress_values_set fin(2) by fastforce
  then have sfin: "sorted (progress_values fin)" by (rule sorted_between)
  have pvpre: "\<And>p. p \<in> set (progress_values pre) \<Longrightarrow> 0.1 \<le> p \<and> p \<le> 0.88"
    using progress_values_carries [of pre "0.1" "0.88"] bounds by blast
  have cross: "\<And>p q. p \<in> set (progress_values pre) \<Longrightarrow> q \<in> set (progress_values fin) \<Longrightarrow> p \<le> q"
  proof -
    fix p q assume "p \<in> set (progress_values pre)" "q \<in> set (progress_values fin)"
    with pvpre [of p] fin1 [of q] show "p \<le> q" by simp
  qed
  have s1: "sorted (progress_values pre @ progress_values fin)"
    using pre sfin cross by (simp add: sorted_append)
  have lo: "\<And>p. p \<in> set (progress_values pre @ progress_values fin) \<Longrightarrow> 0.01 \<le> p"
  proof -
    fix p assume "p \<in> set (progress_values pre @ progress_values fin)"
    then consider "p \<in> set (progress_values pre)" | "p \<in> set (progress_values fin)" by auto
    then show "0.01 \<le> p"
    proof cases
      case 1 with pvpre [of p] show ?thesis by simp
    next
      case 2 with fin1 [of p] show ?thesis by simp
    qed
  qed
  have s2: "sorted (progress_values ([h1, h2] @ pre @ fin))"
    using s1 lo h(1,3) by (simp add: progress_values_Cons progress_values_append)
  have l: "last ([h1, h2] @ pre @ fin) \<in> set fin"
    using fin(1) by simp
  have c: "\<forall>x\<in>set ([h1, h2] @ pre @ fin). carries 0 1 x"
  proof
    fix x assume "x \<in> set ([h1, h2] @ pre @ fin)"
    then consider "x = h1" | "x = h2" | "x \<in> set pre" | "x \<in> set fin" by auto
    then show "carries 0 1 x"
    proof cases
      case 1 with h(1) show ?thesis by (simp add: carries_def)
    next
      case 2 with h(3) show ?thesis by (simp add: carries_def)
    next
      case 3 with bounds [of x] show ?thesis by (auto simp: carries_def split: option.splits)
    next
      case 4 with fin(2) [of x] show ?thesis by (simp add: carries_def)
    qed
  qed
  have t: "\<forall>x\<in>set ([h1, h2] @ pre @ fin). terminal x \<longrightarrow> write_progress x = Some 1"
    using h(2,4) bounds fin(2) by auto
  show ?thesis
    unfolding good_run_def using s2 l c t fin(2) by blast
qed


lemma start_background_job_writes:
  "\<exists>new. writes (snd (start_background_job env j sp fp m n w)) = writes w @ new \<and> good_run new"
proof -
  define h1 where "h1 = DocWrite j (status_payload j ''running'' 0.01 ''starting_worker''
                    (JReal (time_started env)) JNull JNull JNull)"
  define h2 where "h2 = RowWrite j (Some ''running'') (Some 0.01) (Some ''starting_worker'')"
  define w2 where "w2 = db_update_job_status j (Some ''running'') (Some 0.01)
                 (Some ''starting_worker'') (write_status j
                 (status_payload j ''running'' 0.01 ''starting_worker''
                    (JReal (time_started env)) JNull JNull JNull) w)"
  have w2: "writes w2 = writes w @ [h1, h2]"
    by (simp add: w2_def h1_def h2_def db_update_job_status_def write_status_def Let_def
             split: option.splits)
  have h: "write_progress h1 = Some 0.01" "\<not> terminal h1" "write_progress h2 = Some 0.01" "\<not> terminal h2"
    by (simp_all add: h1_def h2_def status_payload_def terminal_def)
  obtain r w3 where p: "pipeline env j sp fp m n w2 = (r, w3)"
    by (cases "pipeline env j sp fp m n w2")
  show ?thesis
  proof (cases r)
    case (Inr u)
    with p have res: "start_background_job env j sp fp m n w = (None, w3)"
      by (simp add: start_background_job_def w2_def Let_def)
    from pipeline_writes [OF p] Inr obtain payload where
      w3: "writes w3 = writes w2 @ running_writes j sp fp
             @ [DocWrite j payload, RowWrite j (Some ''done'') (Some 1) (Some ''done'')]"
      and pl: "py_get payload ''progress'' = Inr (JReal 1)" "py_get payload ''status'' = Inr (JStr ''done'')"
      by auto
    define fin where "fin = [DocWrite j payload, RowWrite j (Some ''done'') (Some 1) (Some ''done'')]"
    have fin: "fin \<noteq> []" "\<And>x. x \<in> set fin \<Longrightarrow> write_progress x = Some 1 \<and> terminal x"
      using pl by (auto simp: fin_def terminal_def)
    have rp: "running_writes j sp fp = running_writes j sp fp @ []" by simp
    have "good_run ([h1, h2] @ running_writes j sp fp @ fin)"
      by (rule good_run_shape [OF running_prefix(1) [OF rp] running_prefix(2) [OF rp] h fin])
    moreover have "writes w3 = writes w @ ([h1, h2] @ running_writes j sp fp @ fin)"
      using w3 w2 by (simp add: fin_def)
    ultimately show ?thesis using res by (metis snd_conv)
  next
    case (Inl e)
    obtain r' w4 where f: "on_failure env j e w3 = (r', w4)"
      by (cases "on_failure env j e w3")
    with p Inl have res: "start_background_job env j sp fp m n w = (r', w4)"
      by (simp add: start_background_job_def w2_def Let_def)
    from pipeline_writes [OF p] Inl obtain pre suf where
      rp: "running_writes j sp fp = pre @ suf" and w3: "writes w3 = writes w2 @ pre"
      by auto
    from on_failure_writes [OF f] obtain fin where
      w4: "writes w4 = writes w3 @ fin" and fin0: "fin \<noteq> []"
      and fin1: "\<And>x. x \<in> set fin \<Longrightarrow> write_progress x = Some 1 \<and> terminal x"
    proof (elim disjE exE conjE)
      assume a: "writes w4 = writes w3 @ [RowWrite j (Some ''failed'') (Some 1) (Some ''failed'')]"
      show thesis
        by (rule that [OF a]) (auto simp: terminal_def)
    next
      fix payload
      assume a: "writes w4 = writes w3 @ [RowWrite j (Some ''failed'') (Some 1) (Some ''failed''),
                                               DocWrite j payload]"
        and b: "py_get payload ''progress'' = Inr (JReal 1)"
               "py_get payload ''status'' = Inr (JStr ''failed'')"
      show thesis
        by (rule that [OF a]) (use b in \<open>auto simp: terminal_def\<close>)
    qed
    have "good_run ([h1, h2] @ pre @ fin)"
      by (rule good_run_shape [OF running_prefix(1) [OF rp] running_prefix(2) [OF rp] h fin0 fin1])
    moreover have "writes w4 = writes w @ ([h1, h2] @ pre @ fin)"
      using w4 w3 w2 by simp
    ultimately show ?thesis using res by (metis snd_conv)
  qed
qed


section \<open>The worker, stage by stage\<close>

lemma disk_db_update [simp]: "disk (db_update_job_status j st pr sg w) = disk w"
  by (simp add: db_update_job_status_def Let_def split: option.splits)

lemma disk_db_failed [simp]: "disk (db_mark_job_failed j msg w) = disk w"
  by (simp add: db_mark_job_failed_def Let_def split: option.splits)

lemma disk_db_done [simp]: "disk (db_mark_job_done j a b c d e f w) = disk w"
  by (simp add: db_mark_job_done_def Let_def split: option.splits)

lemma jobs_write_status [simp]: "jobs (write_status j payload w) = jobs w"
  by (simp add: write_status_def Let_def)

lemma files_mkdir [simp]: "files (mkdir_parents p d) = files d"
  by (simp add: mkdir_parents_def)

lemma files_write_status:
  "files (disk (write_status j payload w)) = (files (disk w))(status_path j \<mapsto> Json payload)"
  by (simp add: write_status_def Let_def)

lemma dirs_write_status:
  "dirs (disk (write_status j payload w)) = dirs (disk w) \<union> {[''results''], [''results'', j]}"
  by (auto simp: write_status_def Let_def mkdir_parents_def job_dir_def RESULTS_DIR_def)

lemma read_status_after_write:
  "read_status j (disk (write_status j payload w)) = Inr payload"
  by (simp add: read_status_def read_json_def exists_path_def files_write_status Let_def)

lemma exists_after_write:
  "length p > 3 \<Longrightarrow> exists_path (disk (write_status j payload w)) p = exists_path (disk w) p"
  by (auto simp: exists_path_def files_write_status dirs_write_status status_path_def job_dir_def
        RESULTS_DIR_def)

lemma jobs_db_update:
  "jobs (db_update_job_status j st pr sg w) j =
     map_option (\<lambda>r. r\<lparr>status := (case st of None \<Rightarrow> status r | Some s \<Rightarrow> s),
                  progress := coalesce pr (progress r), stage := coalesce sg (stage r)\<rparr>) (jobs w j)"
  by (simp add: db_update_job_status_def Let_def split: option.splits)

lemma collect_outputs_result:
  assumes "collect_outputs j sp fp d = Inr (res, td)"
  shows "\<exists>summary. res = result_payload j (overlay_side_url j sp d) (overlay_front_url j fp d)
                       (infer_txt_url j d) (report_obj j ''practice_plan.json'' d)
                       (report_obj j ''lesson_plan.json'' d) summary (sp \<noteq> None) (fp \<noteq> None)"
  using assms by (auto simp: collect_outputs_def Let_def split: sum.splits)

lemma stage_collect_done:
  assumes "stage_collect env j sp fp w = (Inr u, w')"
  shows "\<exists>started summary td.
      w' = db_mark_job_done j
             (str_or (overlay_side_url j sp (disk w)) (overlay_front_url j fp (disk w)))
             (Some (results_url j [''combined'', ''analysis.json'']))
             (Some (results_url j [''combined'', ''practice_plan.pdf'']))
             (infer_txt_url j (disk w))
             (Some (results_url j [''combined'', ''lesson_plan.json'']))
             td
             (write_status j
                (status_payload j ''done'' 1 ''done'' started (JReal (time_finished env)) JNull
                   (result_payload j (overlay_side_url j sp (disk w)) (overlay_front_url j fp (disk w))
                       (infer_txt_url j (disk w)) (report_obj j ''practice_plan.json'' (disk w))
                       (report_obj j ''lesson_plan.json'' (disk w)) summary (sp \<noteq> None) (fp \<noteq> None))) w)"
proof -
  from assms obtain res td where c: "collect_outputs j sp fp (disk w) = Inr (res, td)"
    by (auto simp: stage_collect_def split: sum.splits)
  from collect_outputs_result [OF c] obtain summary where
    res: "res = result_payload j (overlay_side_url j sp (disk w)) (overlay_front_url j fp (disk w))
                       (infer_txt_url j (disk w)) (report_obj j ''practice_plan.json'' (disk w))
                       (report_obj j ''lesson_plan.json'' (disk w)) summary (sp \<noteq> None) (fp \<noteq> None)"
    by blast
  from assms c obtain st where st: "read_status j (disk w) = Inr st"
    by (auto simp: stage_collect_def split: sum.splits)
  from assms c st obtain started where sa: "py_get st ''started_at_unix'' = Inr started"
    by (auto simp: stage_collect_def split: sum.splits)
  from assms c st sa res show ?thesis
    by (simp add: stage_collect_def) blast
qed

lemma writes_write_status [simp]:
  "writes (write_status j payload w) = writes w @ [DocWrite j payload]"
  by (simp add: write_status_def Let_def)

lemma writes_db_update [simp]:
  "writes (db_update_job_status j st pr sg w) = writes w @ [RowWrite j st pr sg]"
  by (simp add: db_update_job_status_def Let_def split: option.splits)

lemma writes_db_failed [simp]:
  "writes (db_mark_job_failed j msg w)
     = writes w @ [RowWrite j (Some ''failed'') (Some 1) (Some ''failed'')]"
  by (simp add: db_mark_job_failed_def Let_def split: option.splits)

lemma jobs_db_failed:
  "jobs (db_mark_job_failed j msg w) j =
     map_option (\<lambda>r. r\<lparr>status := ''failed'', progress := Some 1, stage := Some ''failed'',
                  error_message := Some msg\<rparr>) (jobs w j)"
  by (simp add: db_mark_job_failed_def Let_def split: option.splits)

lemma stage_view_Some:
  "stage_view env j v (Some up) pr lbl m n w =
     (let p = subprocess_run env (cmd_run_engine env up (job_dir j @ [v]) m n)
                (mkdir_parents (job_dir j @ [v]) (disk w));
          w1 = (db_update_job_status j (Some ''running'') (Some pr) (Some lbl) w)\<lparr>disk := disk_after p\<rparr>
      in if returncode p \<noteq> 0 then
           (Inl (''RuntimeError'',
                 v @ '' pipeline failed (exit '' @ str_int (returncode p)
                   @ ''). STDERR tail: '' @ str_tail 1200 (stderr p)), w1)
         else (Inr (), w1))"
  by (simp add: stage_view_def run_single_view_def Let_def)

lemma step_ok_view:
  assumes ok: "\<forall>d. returncode (subprocess_run env (cmd_run_engine env up (job_dir j @ [v]) m n) d) = 0"
    and keep: "\<forall>cmd d. files (disk_after (subprocess_run env cmd d)) (status_path j) = files d (status_path j)"
    and w: "step_ok j w0 ws lbl0 pr0 w"
  shows "\<exists>w'. stage_view env j v (Some up) pr lbl m n w = (Inr (), w')
           \<and> step_ok j w0 (ws @ [RowWrite j (Some ''running'') (Some pr) (Some lbl)]) lbl pr w'
           \<and> disk w' = disk_after (subprocess_run env (cmd_run_engine env up (job_dir j @ [v]) m n)
                 (mkdir_parents (job_dir j @ [v]) (disk w)))"
  using ok keep w
  by (simp add: stage_view_Some Let_def step_ok_def jobs_db_update option.map_comp o_def)

lemma step_ok_combine:
  assumes ok: "\<forall>d. returncode (subprocess_run env (cmd_combine env j sp fp d) d) = 0"
    and keep: "\<forall>cmd d. files (disk_after (subprocess_run env cmd d)) (status_path j) = files d (status_path j)"
    and w: "step_ok j w0 ws lbl0 pr0 w"
  shows "\<exists>w'. stage_combine env j sp fp w = (Inr (), w')
           \<and> step_ok j w0 (ws @ [RowWrite j (Some ''running'') (Some 0.75) (Some ''combining_views'')])
                ''combining_views'' 0.75 w'
           \<and> disk w' = disk_after (subprocess_run env
                 (cmd_combine env j sp fp (mkdir_parents (job_dir j @ [''combined'']) (disk w)))
                 (mkdir_parents (job_dir j @ [''combined'']) (disk w)))"
  using ok keep w
  by (simp add: stage_combine_def Let_def step_ok_def jobs_db_update option.map_comp o_def)

lemma stage_build_eq:
  "stage_build env j m n w =
     (let p = subprocess_run env (cmd_build env j m n) (disk w);
          w2 = (db_update_job_status j (Some ''running'') (Some 0.88)
                 (Some ''building_combined_outputs'') w)\<lparr>disk := disk_after p\<rparr>
      in if returncode p \<noteq> 0 then
           (Inl (''RuntimeError'',
                 ''build_combined_outputs failed. STDERR: '' @ str_tail 1200 (stderr p)), w2)
         else (Inr (), w2))"
  by (simp add: stage_build_def Let_def)

lemma step_ok_build:
  assumes keep: "\<forall>cmd d. files (disk_after (subprocess_run env cmd d)) (status_path j) = files d (status_path j)"
    and w: "step_ok j w0 ws lbl0 pr0 w"
  shows "\<exists>w'. stage_build env j m n w =
            (if returncode (subprocess_run env (cmd_build env j m n) (disk w)) \<noteq> 0
             then Inl (''RuntimeError'', ''build_combined_outputs failed. STDERR: ''
                        @ str_tail 1200 (stderr (subprocess_run env (cmd_build env j m n) (disk w))))
             else Inr (), w')
           \<and> step_ok j w0 (ws @ [RowWrite j (Some ''running'') (Some 0.88) (Some ''building_combined_outputs'')])
                ''building_combined_outputs'' 0.88 w'
           \<and> disk w' = disk_after (subprocess_run env (cmd_build env j m n) (disk w))"
  using keep w
  by (simp add: stage_build_eq Let_def step_ok_def jobs_db_update option.map_comp o_def)

lemma pipeline_to_build:
  assumes okS: "\<forall>d. returncode (subprocess_run env (cmd_run_engine env s (job_dir j @ [''side'']) m n) d) = 0"
    and okF: "\<forall>d. returncode (subprocess_run env (cmd_run_engine env f (job_dir j @ [''front'']) m n) d) = 0"
    and okC: "\<forall>d. returncode (subprocess_run env (cmd_combine env j (Some s) (Some f) d) d) = 0"
    and keep: "\<forall>cmd d. files (disk_after (subprocess_run env cmd d)) (status_path j) = files d (status_path j)"
    and init: "step_ok j w0 ws lbl0 pr0 w2"
  shows "\<exists>w6.
      pipeline env j (Some s) (Some f) m n w2 =
        (if returncode (subprocess_run env (cmd_build env j m n)
               (disk_before_build env j s f m n (disk w2))) \<noteq> 0
         then (Inl (''RuntimeError'', ''build_combined_outputs failed. STDERR: ''
                 @ str_tail 1200 (stderr (subprocess_run env (cmd_build env j m n)
                     (disk_before_build env j s f m n (disk w2))))), w6)
         else stage_collect env j (Some s) (Some f) w6)
      \<and> step_ok j w0 (ws @ running_writes j (Some s) (Some f)) ''building_combined_outputs'' 0.88 w6
      \<and> disk w6 = disk_after (subprocess_run env (cmd_build env j m n)
               (disk_before_build env j s f m n (disk w2)))"
proof -
  from step_ok_view [OF okS keep init] obtain w3 where
    s3: "stage_view env j ''side'' (Some s) 0.10 ''running_side'' m n w2 = (Inr (), w3)"
    and k3: "step_ok j w0 (ws @ [RowWrite j (Some ''running'') (Some 0.10) (Some ''running_side'')])
               ''running_side'' 0.10 w3"
    and d3: "disk w3 = disk_after (subprocess_run env (cmd_run_engine env s (job_dir j @ [''side'']) m n)
                 (mkdir_parents (job_dir j @ [''side'']) (disk w2)))"
    by blast
  from step_ok_view [OF okF keep k3] obtain w4 where
    s4: "stage_view env j ''front'' (Some f) 0.45 ''running_front'' m n w3 = (Inr (), w4)"
    and k4: "step_ok j w0 ((ws @ [RowWrite j (Some ''running'') (Some 0.10) (Some ''running_side'')])
                 @ [RowWrite j (Some ''running'') (Some 0.45) (Some ''running_front'')])
               ''running_front'' 0.45 w4"
    and d4: "disk w4 = disk_after (subprocess_run env (cmd_run_engine env f (job_dir j @ [''front'']) m n)
                 (mkdir_parents (job_dir j @ [''front'']) (disk w3)))"
    by blast
  from step_ok_combine [OF okC keep k4] obtain w5 where
    s5: "stage_combine env j (Some s) (Some f) w4 = (Inr (), w5)"
    and k5: "step_ok j w0 (((ws @ [RowWrite j (Some ''running'') (Some 0.10) (Some ''running_side'')])
                 @ [RowWrite j (Some ''running'') (Some 0.45) (Some ''running_front'')])
                 @ [RowWrite j (Some ''running'') (Some 0.75) (Some ''combining_views'')])
               ''combining_views'' 0.75 w5"
    and d5: "disk w5 = disk_after (subprocess_run env
                 (cmd_combine env j (Some s) (Some f) (mkdir_parents (job_dir j @ [''combined'']) (disk w4)))
                 (mkdir_parents (job_dir j @ [''combined'']) (disk w4)))"
    by blast
  have d5': "disk w5 = disk_before_build env j s f m n (disk w2)"
    by (simp only: d5 d4 d3 disk_before_build_def Let_def)
  from step_ok_build [OF keep k5, where m=m and n=n] obtain w6 where
    s6: "stage_build env j m n w5 =
            (if returncode (subprocess_run env (cmd_build env j m n) (disk w5)) \<noteq> 0
             then Inl (''RuntimeError'', ''build_combined_outputs failed. STDERR: ''
                        @ str_tail 1200 (stderr (subprocess_run env (cmd_build env j m n) (disk w5))))
             else Inr (), w6)"
    and k6: "step_ok j w0 ((((ws @ [RowWrite j (Some ''running'') (Some 0.10) (Some ''running_side'')])
                 @ [RowWrite j (Some ''running'') (Some 0.45) (Some ''running_front'')])
                 @ [RowWrite j (Some ''running'') (Some 0.75) (Some ''combining_views'')])
                 @ [RowWrite j (Some ''running'') (Some 0.88) (Some ''building_combined_outputs'')])
               ''building_combined_outputs'' 0.88 w6"
    and d6: "disk w6 = disk_after (subprocess_run env (cmd_build env j m n) (disk w5))"
    by blast
  have p: "pipeline env j (Some s) (Some f) m n w2 =
        (if returncode (subprocess_run env (cmd_build env j m n) (disk w5)) \<noteq> 0
         then (Inl (''RuntimeError'', ''build_combined_outputs failed. STDERR: ''
                 @ str_tail 1200 (stderr (subprocess_run env (cmd_build env j m n) (disk w5)))), w6)
         else stage_collect env j (Some s) (Some f) w6)"
    by (simp only: pipeline_def and_then_def s3 s4 s5 s6 prod.case sum.case) simp
  have k: "step_ok j w0 (ws @ running_writes j (Some s) (Some f)) ''building_combined_outputs'' 0.88 w6"
    using k6 by (simp add: running_writes_def)
  show ?thesis
    using p k d6 unfolding d5' by blast
qed

lemma start_background_job_eq:
  "start_background_job env j sp fp m n w =
     (case pipeline env j sp fp m n
             (db_update_job_status j (Some ''running'') (Some 0.01) (Some ''starting_worker'')
                (write_status j (running_payload env j) w)) of
        (Inr u, w3) \<Rightarrow> (None, w3)
      | (Inl e, w3) \<Rightarrow> on_failure env j e w3)"
  by (simp add: start_background_job_def running_payload_def Let_def)

lemma initial_step_ok:
  "step_ok j (write_status j (running_payload env j) w)
     [RowWrite j (Some ''running'') (Some 0.01) (Some ''starting_worker'')] ''starting_worker'' 0.01
     (db_update_job_status j (Some ''running'') (Some 0.01) (Some ''starting_worker'')
                (write_status j (running_payload env j) w))"
  by (simp add: step_ok_def jobs_db_update)

lemma on_failure_readable:
  assumes "files (disk w) (status_path j) = Some (Json (running_payload env j))"
  shows "on_failure env j e w =
     (None, write_status j
              (status_payload j ''failed'' 1 ''failed'' (JReal (time_started env))
                 (JReal (time_finished env)) (JObj [(''message'', JStr (fst e @ '': '' @ snd e))]) JNull)
              (db_mark_job_failed j (fst e @ '': '' @ snd e) w))"
  using assms
  by (simp add: on_failure_def Let_def read_status_def read_json_def exists_path_def
        running_payload_def status_payload_def)

lemma disk_initial:
  "disk (db_update_job_status j st pr sg (write_status j payload w))
     = mkdir_parents (job_dir j) (disk w)\<lparr>files := (files (disk w))(status_path j \<mapsto> Json payload)\<rparr>"
  by (simp add: write_status_def Let_def)

lemma build_failure_run:
  fixes w :: world
  assumes okS: "\<forall>d. returncode (subprocess_run env (cmd_run_engine env s (job_dir j @ [''side'']) m n) d) = 0"
    and okF: "\<forall>d. returncode (subprocess_run env (cmd_run_engine env f (job_dir j @ [''front'']) m n) d) = 0"
    and okC: "\<forall>d. returncode (subprocess_run env (cmd_combine env j (Some s) (Some f) d) d) = 0"
    and bad: "\<forall>d. returncode (subprocess_run env (cmd_build env j m n) d) \<noteq> 0"
    and keep: "\<forall>cmd d. files (disk_after (subprocess_run env cmd d)) (status_path j) = files d (status_path j)"
  defines "msg \<equiv> ''RuntimeError: build_combined_outputs failed. STDERR: ''
                   @ str_tail 1200 (stderr (build_proc env j s f m n w))"
  defines "payload \<equiv> status_payload j ''failed'' 1 ''failed'' (JReal (time_started env))
                 (JReal (time_finished env)) (JObj [(''message'', JStr msg)]) JNull"
  defines "res \<equiv> start_background_job env j (Some s) (Some f) m n w"
  shows "fst res = None"
    and "writes (snd res) = writes w
           @ [DocWrite j (running_payload env j),
              RowWrite j (Some ''running'') (Some 0.01) (Some ''starting_worker'')]
           @ running_writes j (Some s) (Some f)
           @ [RowWrite j (Some ''failed'') (Some 1) (Some ''failed''), DocWrite j payload]"
    and "jobs (snd res) j =
           map_option (\<lambda>r. r\<lparr>status := ''failed'', progress := Some 1, stage := Some ''failed'',
                  error_message := Some msg\<rparr>) (jobs w j)"
    and "read_status j (disk (snd res)) = Inr payload"
    and "\<And>p. length p > 3 \<Longrightarrow>
           exists_path (disk (snd res)) p = exists_path (disk_after (build_proc env j s f m n w)) p"
proof -
  define w1 where "w1 = write_status j (running_payload env j) w"
  define w2 where "w2 = db_update_job_status j (Some ''running'') (Some 0.01) (Some ''starting_worker'') w1"
  have i: "step_ok j w1 [RowWrite j (Some ''running'') (Some 0.01) (Some ''starting_worker'')]
             ''starting_worker'' 0.01 w2"
    unfolding w1_def w2_def by (rule initial_step_ok)
  have dw2: "disk w2 = mkdir_parents (job_dir j) (disk w)\<lparr>files := (files (disk w))(status_path j \<mapsto> Json (running_payload env j))\<rparr>"
    unfolding w1_def w2_def by (rule disk_initial)
  have bp: "subprocess_run env (cmd_build env j m n) (disk_before_build env j s f m n (disk w2))
              = build_proc env j s f m n w"
    by (simp only: build_proc_def dw2)
  from pipeline_to_build [OF okS okF okC keep i, unfolded bp] obtain w6 where
    p0: "pipeline env j (Some s) (Some f) m n w2 =
          (if returncode (build_proc env j s f m n w) \<noteq> 0
           then (Inl (''RuntimeError'', ''build_combined_outputs failed. STDERR: ''
                 @ str_tail 1200 (stderr (build_proc env j s f m n w))), w6)
           else stage_collect env j (Some s) (Some f) w6)"
    and k: "step_ok j w1 ([RowWrite j (Some ''running'') (Some 0.01) (Some ''starting_worker'')]
               @ running_writes j (Some s) (Some f)) ''building_combined_outputs'' 0.88 w6"
    and d: "disk w6 = disk_after (build_proc env j s f m n w)"
    by blast
  have nz: "returncode (build_proc env j s f m n w) \<noteq> 0"
    using bad by (simp add: build_proc_def)
  have p: "pipeline env j (Some s) (Some f) m n w2 =
          (Inl (''RuntimeError'', ''build_combined_outputs failed. STDERR: ''
                 @ str_tail 1200 (stderr (build_proc env j s f m n w))), w6)"
    using nz by (simp add: p0)
  have st: "files (disk w6) (status_path j) = Some (Json (running_payload env j))"
    using k by (simp add: step_ok_def w1_def files_write_status)
  have m: "fst (''RuntimeError'', ''build_combined_outputs failed. STDERR: ''
                 @ str_tail 1200 (stderr (build_proc env j s f m n w))) @ '': ''
           @ snd (''RuntimeError'', ''build_combined_outputs failed. STDERR: ''
                 @ str_tail 1200 (stderr (build_proc env j s f m n w))) = msg"
    by (simp add: msg_def)
  have r: "res = (None, write_status j payload (db_mark_job_failed j msg w6))"
    unfolding res_def start_background_job_eq w2_def [symmetric] w1_def [symmetric] p
    by (simp only: prod.case sum.case on_failure_readable [OF st] m payload_def)
  show "fst res = None" by (simp add: r)
  show "writes (snd res) = writes w
           @ [DocWrite j (running_payload env j),
              RowWrite j (Some ''running'') (Some 0.01) (Some ''starting_worker'')]
           @ running_writes j (Some s) (Some f)
           @ [RowWrite j (Some ''failed'') (Some 1) (Some ''failed''), DocWrite j payload]"
    using k by (simp add: r step_ok_def w1_def)
  show "jobs (snd res) j =
           map_option (\<lambda>r. r\<lparr>status := ''failed'', progress := Some 1, stage := Some ''failed'',
                  error_message := Some msg\<rparr>) (jobs w j)"
    using k by (simp add: r step_ok_def w1_def jobs_db_failed option.map_comp o_def)
  show "read_status j (disk (snd res)) = Inr payload"
    by (simp add: r read_status_after_write)
  show "\<And>p. length p > 3 \<Longrightarrow>
           exists_path (disk (snd res)) p = exists_path (disk_after (build_proc env j s f m n w)) p"
    by (simp add: r exists_after_write d)
qed

text \<open>
  Claim C3. The progress values written by one run of \<open>start_background_job\<close>, to the
  job table and to the status document together and in program order, whatever views
  were uploaded and wherever the run fails: the sequence is non-decreasing, every write
  carries a value in [0, 1], a write of a terminal status (\<open>done\<close> or \<open>failed\<close>) carries
  exactly 1, and the last write of the run is such a terminal write.
\<close>

theorem progress_monotone:
  "\<exists>new. writes (snd (start_background_job env job_id side_path front_path model no_ai w))
            = writes w @ new
         \<and> new \<noteq> []
         \<and> sorted (progress_values new)
         \<and> (\<forall>x\<in>set new. \<exists>p. write_progress x = Some p \<and> 0 \<le> p \<and> p \<le> 1)
         \<and> (\<forall>x\<in>set new. terminal x \<longrightarrow> write_progress x = Some 1)
         \<and> terminal (last new)"
proof -
  from start_background_job_writes [of env job_id side_path front_path model no_ai w]
  obtain new where
    n: "writes (snd (start_background_job env job_id side_path front_path model no_ai w))
          = writes w @ new" and g: "good_run new"
    by blast
  from g have "\<forall>x\<in>set new. \<exists>p. write_progress x = Some p \<and> 0 \<le> p \<and> p \<le> 1"
    unfolding good_run_def using carriesD by blast
  with n g show ?thesis unfolding good_run_def by blast
qed

text \<open>The example processes meet the assumptions used below.\<close>

lemma demo_okS:
  "\<forall>d. returncode (subprocess_run (demo_env b) (cmd_run_engine (demo_env b) demo_side (job_dir ''j1'' @ [''side'']) ''gpt-5-mini'' False) d) = 0"
  by (simp add: demo_env_def demo_run_def cmd_run_engine_def str_path_def RUN_ENGINE_def job_dir_def RESULTS_DIR_def)

lemma demo_okF:
  "\<forall>d. returncode (subprocess_run (demo_env b) (cmd_run_engine (demo_env b) demo_front (job_dir ''j1'' @ [''front'']) ''gpt-5-mini'' False) d) = 0"
  by (simp add: demo_env_def demo_run_def cmd_run_engine_def str_path_def RUN_ENGINE_def job_dir_def RESULTS_DIR_def)

lemma demo_okC:
  "\<forall>d. returncode (subprocess_run (demo_env b) (cmd_combine (demo_env b) ''j1'' (Some demo_side) (Some demo_front) d) d) = 0"
  by (simp add: demo_env_def demo_run_def cmd_combine_def str_path_def COMBINE_VIEWS_def Let_def)

lemma demo_bad:
  "\<forall>d. returncode (subprocess_run (demo_env False) (cmd_build (demo_env False) ''j1'' ''gpt-5-mini'' False) d) \<noteq> 0"
  by (simp add: demo_env_def demo_run_def cmd_build_def str_path_def BUILD_COMBINED_def)

lemma demo_keep:
  "\<forall>cmd d. files (disk_after (subprocess_run (demo_env b) cmd d)) (status_path ''j1'') = files d (status_path ''j1'')"
  by (simp add: demo_env_def demo_run_def status_path_def job_dir_def RESULTS_DIR_def split: list.splits)




theorem progress_monotone_witness:
  "(\<exists>new. writes (snd (start_background_job (demo_env False) ''j1'' (Some demo_side) (Some demo_front)
                         ''gpt-5-mini'' False demo_world))
            = writes demo_world @ new
         \<and> new \<noteq> []
         \<and> sorted (progress_values new)
         \<and> (\<forall>x\<in>set new. \<exists>p. write_progress x = Some p \<and> 0 \<le> p \<and> p \<le> 1)
         \<and> (\<forall>x\<in>set new. terminal x \<longrightarrow> write_progress x = Some 1)
         \<and> terminal (last new))
   \<and> progress_values (writes (snd (start_background_job (demo_env False) ''j1'' (Some demo_side)
                         (Some demo_front) ''gpt-5-mini'' False demo_world)))
       = [0.01, 0.01, 0.10, 0.45, 0.75, 0.88, 1, 1]"
proof -
  note run = build_failure_run [OF demo_okS demo_okF demo_okC demo_bad demo_keep, where w=demo_world]
  have "progress_values (writes (snd (start_background_job (demo_env False) ''j1'' (Some demo_side)
                         (Some demo_front) ''gpt-5-mini'' False demo_world)))
       = [0.01, 0.01, 0.10, 0.45, 0.75, 0.88, 1, 1]"
    unfolding run(2)
    by (simp add: demo_world_def running_writes_def running_payload_def status_payload_def
          progress_values_Cons progress_values_Nil)
  with progress_monotone [of "demo_env False" "''j1''" "Some demo_side" "Some demo_front"
         "''gpt-5-mini''" False demo_world]
  show ?thesis by blast
qed

section \<open>Failure of the report builder\<close>




section \<open>A run that reaches done\<close>

lemma same_long_paths_write:
  "same_long_paths (disk (write_status j payload w)) (disk w)"
  by (auto simp: same_long_paths_def files_write_status dirs_write_status status_path_def job_dir_def
        RESULTS_DIR_def)

lemma same_long_paths_exists:
  "same_long_paths d' d \<Longrightarrow> length p > 3 \<Longrightarrow> exists_path d' p = exists_path d p"
  by (simp add: same_long_paths_def exists_path_def)

lemma same_long_paths_pick:
  "same_long_paths d' d \<Longrightarrow> pick_overlay_url j v d' = pick_overlay_url j v d"
  by (simp add: pick_overlay_url_def Let_def same_long_paths_exists job_dir_def RESULTS_DIR_def)

lemma same_long_paths_report:
  "same_long_paths d' d \<Longrightarrow> report_obj j name d' = report_obj j name d"
  by (simp add: report_obj_def safe_read_json_def read_json_def same_long_paths_exists job_dir_def
        RESULTS_DIR_def)
     (simp add: same_long_paths_def)

lemma pipeline_done_collect:
  assumes "pipeline env j sp fp m n w = (Inr u, w')"
  shows "\<exists>w4. stage_collect env j sp fp w4 = (Inr u, w')"
  using assms
  by (auto simp: pipeline_def and_then_def split: prod.splits sum.splits)

lemma done_run_collect:
  assumes d: "last (writes (snd (start_background_job env j sp fp m n w)))
                = RowWrite j (Some ''done'') (Some 1) (Some ''done'')"
  shows "\<exists>w4 u. stage_collect env j sp fp w4 = (Inr u, snd (start_background_job env j sp fp m n w))"
proof -
  define w2 where "w2 = db_update_job_status j (Some ''running'') (Some 0.01) (Some ''starting_worker'')
                (write_status j (running_payload env j) w)"
  obtain r w3 where p: "pipeline env j sp fp m n w2 = (r, w3)"
    by (cases "pipeline env j sp fp m n w2")
  show ?thesis
  proof (cases r)
    case (Inr u)
    with p have "snd (start_background_job env j sp fp m n w) = w3"
      unfolding start_background_job_eq w2_def [symmetric] by simp
    with pipeline_done_collect p Inr show ?thesis by blast
  next
    case (Inl e)
    obtain r' w4 where f: "on_failure env j e w3 = (r', w4)"
      by (cases "on_failure env j e w3")
    with p Inl have "snd (start_background_job env j sp fp m n w) = w4"
      unfolding start_background_job_eq w2_def [symmetric] by simp
    with d have "last (writes w4) = RowWrite j (Some ''done'') (Some 1) (Some ''done'')" by simp
    with on_failure_writes [OF f] show ?thesis by auto
  qed
qed

lemma done_run_state:
  assumes d: "last (writes (snd (start_background_job env j sp fp m n w)))
                = RowWrite j (Some ''done'') (Some 1) (Some ''done'')"
  shows "\<exists>started summary.
      read_status j (disk (snd (start_background_job env j sp fp m n w))) =
        Inr (status_payload j ''done'' 1 ''done'' started (JReal (time_finished env)) JNull
               (result_payload j
                  (overlay_side_url j sp (disk (snd (start_background_job env j sp fp m n w))))
                  (overlay_front_url j fp (disk (snd (start_background_job env j sp fp m n w))))
                  (infer_txt_url j (disk (snd (start_background_job env j sp fp m n w))))
                  (report_obj j ''practice_plan.json'' (disk (snd (start_background_job env j sp fp m n w))))
                  (report_obj j ''lesson_plan.json'' (disk (snd (start_background_job env j sp fp m n w))))
                  summary (sp \<noteq> None) (fp \<noteq> None)))"
proof -
  let ?w' = "snd (start_background_job env j sp fp m n w)"
  from done_run_collect [OF d] obtain w4 u where c: "stage_collect env j sp fp w4 = (Inr u, ?w')"
    by blast
  from stage_collect_done [OF c] obtain started summary td where
    w': "?w' = db_mark_job_done j
             (str_or (overlay_side_url j sp (disk w4)) (overlay_front_url j fp (disk w4)))
             (Some (results_url j [''combined'', ''analysis.json'']))
             (Some (results_url j [''combined'', ''practice_plan.pdf'']))
             (infer_txt_url j (disk w4))
             (Some (results_url j [''combined'', ''lesson_plan.json'']))
             td
             (write_status j
                (status_payload j ''done'' 1 ''done'' started (JReal (time_finished env)) JNull
                   (result_payload j (overlay_side_url j sp (disk w4)) (overlay_front_url j fp (disk w4))
                       (infer_txt_url j (disk w4)) (report_obj j ''practice_plan.json'' (disk w4))
                       (report_obj j ''lesson_plan.json'' (disk w4)) summary (sp \<noteq> None) (fp \<noteq> None))) w4)"
    by blast
  define payload where "payload = status_payload j ''done'' 1 ''done'' started (JReal (time_finished env)) JNull
                   (result_payload j (overlay_side_url j sp (disk w4)) (overlay_front_url j fp (disk w4))
                       (infer_txt_url j (disk w4)) (report_obj j ''practice_plan.json'' (disk w4))
                       (report_obj j ''lesson_plan.json'' (disk w4)) summary (sp \<noteq> None) (fp \<noteq> None))"
  have dw: "disk ?w' = disk (write_status j payload w4)"
    by (subst w') (simp add: payload_def)
  have s: "same_long_paths (disk ?w') (disk w4)"
    unfolding dw by (rule same_long_paths_write)
  have r: "read_status j (disk ?w') = Inr payload"
    unfolding dw by (rule read_status_after_write)
  have e: "overlay_side_url j sp (disk ?w') = overlay_side_url j sp (disk w4)"
    "overlay_front_url j fp (disk ?w') = overlay_front_url j fp (disk w4)"
    "infer_txt_url j (disk ?w') = infer_txt_url j (disk w4)"
    "report_obj j ''practice_plan.json'' (disk ?w') = report_obj j ''practice_plan.json'' (disk w4)"
    "report_obj j ''lesson_plan.json'' (disk ?w') = report_obj j ''lesson_plan.json'' (disk w4)"
    using s
    by (simp_all add: overlay_side_url_def overlay_front_url_def same_long_paths_pick
          same_long_paths_report infer_txt_url_def same_long_paths_exists job_dir_def RESULTS_DIR_def)
  show ?thesis
    unfolding r e payload_def by blast
qed


lemma writes_db_done [simp]:
  "writes (db_mark_job_done j a b c d e f w)
     = writes w @ [RowWrite j (Some ''done'') (Some 1) (Some ''done'')]"
  by (simp add: db_mark_job_done_def Let_def split: option.splits)

lemma read_status_running:
  assumes "files d (status_path j) = Some (Json (running_payload env j))"
  shows "read_status j d = Inr (running_payload env j)"
  using assms by (simp add: read_status_def read_json_def exists_path_def Let_def)

lemma stage_collect_ok:
  assumes c: "collect_outputs j sp fp (disk w) = Inr x"
    and st: "files (disk w) (status_path j) = Some (Json (running_payload env j))"
  shows "\<exists>a b c d e f payload.
           stage_collect env j sp fp w = (Inr (), db_mark_job_done j a b c d e f (write_status j payload w))"
proof -
  obtain res td where x: "x = (res, td)" by (cases x)
  have g: "py_get (running_payload env j) ''started_at_unix'' = Inr (JReal (time_started env))"
    by (simp add: running_payload_def status_payload_def)
  show ?thesis
    unfolding stage_collect_def c x read_status_running [OF st]
    by (simp only: sum.case prod.case g) blast
qed

lemma success_run:
  fixes w :: world
  assumes okS: "\<forall>d. returncode (subprocess_run env (cmd_run_engine env s (job_dir j @ [''side'']) m n) d) = 0"
    and okF: "\<forall>d. returncode (subprocess_run env (cmd_run_engine env f (job_dir j @ [''front'']) m n) d) = 0"
    and okC: "\<forall>d. returncode (subprocess_run env (cmd_combine env j (Some s) (Some f) d) d) = 0"
    and okB: "\<forall>d. returncode (subprocess_run env (cmd_build env j m n) d) = 0"
    and keep: "\<forall>cmd d. files (disk_after (subprocess_run env cmd d)) (status_path j) = files d (status_path j)"
    and coll: "collect_outputs j (Some s) (Some f) (disk_after (build_proc env j s f m n w)) = Inr x"
  defines "res \<equiv> start_background_job env j (Some s) (Some f) m n w"
  shows "fst res = None"
    and "last (writes (snd res)) = RowWrite j (Some ''done'') (Some 1) (Some ''done'')"
    and "same_long_paths (disk (snd res)) (disk_after (build_proc env j s f m n w))"
proof -
  define w1 where "w1 = write_status j (running_payload env j) w"
  define w2 where "w2 = db_update_job_status j (Some ''running'') (Some 0.01) (Some ''starting_worker'') w1"
  have i: "step_ok j w1 [RowWrite j (Some ''running'') (Some 0.01) (Some ''starting_worker'')]
             ''starting_worker'' 0.01 w2"
    unfolding w1_def w2_def by (rule initial_step_ok)
  have dw2: "disk w2 = mkdir_parents (job_dir j) (disk w)\<lparr>files := (files (disk w))(status_path j \<mapsto> Json (running_payload env j))\<rparr>"
    unfolding w1_def w2_def by (rule disk_initial)
  have bp: "subprocess_run env (cmd_build env j m n) (disk_before_build env j s f m n (disk w2))
              = build_proc env j s f m n w"
    by (simp only: build_proc_def dw2)
  from pipeline_to_build [OF okS okF okC keep i, unfolded bp] obtain w6 where
    p0: "pipeline env j (Some s) (Some f) m n w2 =
          (if returncode (build_proc env j s f m n w) \<noteq> 0
           then (Inl (''RuntimeError'', ''build_combined_outputs failed. STDERR: ''
                 @ str_tail 1200 (stderr (build_proc env j s f m n w))), w6)
           else stage_collect env j (Some s) (Some f) w6)"
    and k: "step_ok j w1 ([RowWrite j (Some ''running'') (Some 0.01) (Some ''starting_worker'')]
               @ running_writes j (Some s) (Some f)) ''building_combined_outputs'' 0.88 w6"
    and d: "disk w6 = disk_after (build_proc env j s f m n w)"
    by blast
  have z: "returncode (build_proc env j s f m n w) = 0"
    using okB by (simp add: build_proc_def)
  have p: "pipeline env j (Some s) (Some f) m n w2 = stage_collect env j (Some s) (Some f) w6"
    using z by (simp add: p0)
  have st: "files (disk w6) (status_path j) = Some (Json (running_payload env j))"
    using k by (simp add: step_ok_def w1_def files_write_status)
  from stage_collect_ok [OF coll [folded d] st] obtain a b c d' e f' payload where
    sc: "stage_collect env j (Some s) (Some f) w6
           = (Inr (), db_mark_job_done j a b c d' e f' (write_status j payload w6))"
    by blast
  have r: "res = (None, db_mark_job_done j a b c d' e f' (write_status j payload w6))"
    unfolding res_def start_background_job_eq w2_def [symmetric] w1_def [symmetric] p sc
    by simp
  show "fst res = None" by (simp add: r)
  show "last (writes (snd res)) = RowWrite j (Some ''done'') (Some 1) (Some ''done'')"
    by (simp add: r)
  show "same_long_paths (disk (snd res)) (disk_after (build_proc env j s f m n w))"
    using same_long_paths_write [of j payload w6] by (simp add: r d)
qed

lemma served_payload:
  assumes "read_status j d = Inr (status_payload j st pr sg started fin err
             (result_payload j os ofr txt pp lp summary hs hf))"
  shows "served_result_field j d ''practice_plan'' = Inr pp"
    and "served_result_field j d ''lesson_plan'' = Inr lp"
    and "served_result_field j d ''overlay_side_url'' = Inr (opt_str os)"
    and "served_result_field j d ''overlay_front_url'' = Inr (opt_str ofr)"
    and "served_result_field j d ''overlay_url'' = Inr (opt_str (str_or os ofr))"
  using assms
  by (simp_all add: served_result_field_def job_def status_payload_def result_payload_def)


lemma demo_okB:
  "\<forall>d. returncode (subprocess_run (demo_env True) (cmd_build (demo_env True) ''j1'' ''gpt-5-mini'' False) d) = 0"
  by (simp add: demo_env_def demo_run_def cmd_build_def str_path_def BUILD_COMBINED_def)

lemmas demo_eval =
  build_proc_def disk_before_build_def demo_env_def demo_run_def demo_world_def demo_side_def
  demo_front_def cmd_build_def cmd_combine_def cmd_run_engine_def str_path_def
  BUILD_COMBINED_def COMBINE_VIEWS_def RUN_ENGINE_def job_dir_def RESULTS_DIR_def status_path_def
  mkdir_parents_def exists_path_def Let_def

lemma demo_files:
  "files (disk_after (build_proc (demo_env True) ''j1'' demo_side demo_front ''gpt-5-mini'' False demo_world))
     [''results'', ''j1'', ''combined'', ''practice_plan.json'']
     = Some (Json (JObj [(''drills'', JArr [JStr ''grip'', JStr ''stance''])]))"
  "files (disk_after (build_proc (demo_env True) ''j1'' demo_side demo_front ''gpt-5-mini'' False demo_world))
     [''results'', ''j1'', ''combined'', ''lesson_plan.json''] = Some (Raw ''{'')"
  "files (disk_after (build_proc (demo_env True) ''j1'' demo_side demo_front ''gpt-5-mini'' False demo_world))
     [''results'', ''j1'', ''combined'', ''analysis.json'']
     = Some (Json (JObj [(''summary'', JObj [(''throws_detected'', JInt 3)])]))"
  by (simp_all add: demo_eval)

lemma demo_overlays:
  "\<not> exists_path (disk_after (build_proc (demo_env True) ''j1'' demo_side demo_front ''gpt-5-mini'' False demo_world))
     [''results'', ''j1'', ''side'', ''overlay_release_web.mp4'']"
  "exists_path (disk_after (build_proc (demo_env True) ''j1'' demo_side demo_front ''gpt-5-mini'' False demo_world))
     [''results'', ''j1'', ''side'', ''overlay_release.mp4'']"
  "exists_path (disk_after (build_proc (demo_env True) ''j1'' demo_side demo_front ''gpt-5-mini'' False demo_world))
     [''results'', ''j1'', ''front'', ''overlay_release_web.mp4'']"
  by (simp_all add: demo_eval)

lemma demo_collect:
  "\<exists>x. collect_outputs ''j1'' (Some demo_side) (Some demo_front)
     (disk_after (build_proc (demo_env True) ''j1'' demo_side demo_front ''gpt-5-mini'' False demo_world))
     = Inr x"
  by (simp add: collect_outputs_def safe_read_json_def read_json_def exists_path_def py_or_def
        job_dir_def RESULTS_DIR_def demo_files Let_def)

lemma demo_done_run:
  "last (writes demo_done) = RowWrite ''j1'' (Some ''done'') (Some 1) (Some ''done'')"
  "same_long_paths (disk demo_done)
     (disk_after (build_proc (demo_env True) ''j1'' demo_side demo_front ''gpt-5-mini'' False demo_world))"
proof -
  from demo_collect obtain x where
    c: "collect_outputs ''j1'' (Some demo_side) (Some demo_front)
          (disk_after (build_proc (demo_env True) ''j1'' demo_side demo_front ''gpt-5-mini'' False demo_world))
          = Inr x"
    by blast
  note run = success_run [OF demo_okS demo_okF demo_okC demo_okB demo_keep c, folded demo_done_def]
  show "last (writes demo_done) = RowWrite ''j1'' (Some ''done'') (Some 1) (Some ''done'')"
    by (rule run(2))
  show "same_long_paths (disk demo_done)
     (disk_after (build_proc (demo_env True) ''j1'' demo_side demo_front ''gpt-5-mini'' False demo_world))"
    by (rule run(3))
qed


lemma demo_done_overlays:
  "\<not> exists_path (disk demo_done) (job_dir ''j1'' @ [''side'', ''overlay_release_web.mp4''])"
  "exists_path (disk demo_done) (job_dir ''j1'' @ [''side'', ''overlay_release.mp4''])"
  "exists_path (disk demo_done) (job_dir ''j1'' @ [''front'', ''overlay_release_web.mp4''])"
  using demo_overlays
  by (simp_all add: same_long_paths_exists [OF demo_done_run(2)] job_dir_def RESULTS_DIR_def)




text \<open>
  Claim C9. For every job that reaches done: the overlay URL of an uploaded view is the
  web variant when that file exists, else the full-size variant when that exists, else
  absent (and absent for a view that was not uploaded); the legacy field \<open>overlay_url\<close> is
  the side view's overlay URL whenever there is one, and the front view's only when the
  side view has none.
\<close>

theorem overlay_urls:
  fixes env :: env and job_id :: string and side_path front_path :: "path option"
    and model :: string and no_ai :: bool and w :: world
  defines "w' \<equiv> snd (start_background_job env job_id side_path front_path model no_ai w)"
  defines "web v \<equiv> exists_path (disk w') (job_dir job_id @ [v, ''overlay_release_web.mp4''])"
  defines "full v \<equiv> exists_path (disk w') (job_dir job_id @ [v, ''overlay_release.mp4''])"
  defines "url v \<equiv>
     (if web v then JStr (''/results/'' @ job_id @ ''/'' @ v @ ''/overlay_release_web.mp4'')
      else if full v then JStr (''/results/'' @ job_id @ ''/'' @ v @ ''/overlay_release.mp4'')
      else JNull)"
  assumes reached: "last (writes w') = RowWrite job_id (Some ''done'') (Some 1) (Some ''done'')"
  shows "served_result_field job_id (disk w') ''overlay_side_url''
           = Inr (if side_path \<noteq> None then url ''side'' else JNull)
       \<and> served_result_field job_id (disk w') ''overlay_front_url''
           = Inr (if front_path \<noteq> None then url ''front'' else JNull)
       \<and> served_result_field job_id (disk w') ''overlay_url''
           = Inr (if side_path \<noteq> None \<and> url ''side'' \<noteq> JNull then url ''side''
                  else if front_path \<noteq> None then url ''front'' else JNull)"
proof -
  from done_run_state [OF reached [unfolded w'_def], folded w'_def] obtain started summary where
    r: "read_status job_id (disk w') =
        Inr (status_payload job_id ''done'' 1 ''done'' started (JReal (time_finished env)) JNull
               (result_payload job_id
                  (overlay_side_url job_id side_path (disk w'))
                  (overlay_front_url job_id front_path (disk w'))
                  (infer_txt_url job_id (disk w'))
                  (report_obj job_id ''practice_plan.json'' (disk w'))
                  (report_obj job_id ''lesson_plan.json'' (disk w'))
                  summary (side_path \<noteq> None) (front_path \<noteq> None)))"
    by blast
  have p: "opt_str (pick_overlay_url job_id v (disk w')) = url v" for v
    by (simp add: pick_overlay_url_def Let_def url_def web_def full_def results_url_def)
  have s: "opt_str (overlay_side_url job_id side_path (disk w'))
             = (if side_path \<noteq> None then url ''side'' else JNull)"
    by (simp add: overlay_side_url_def p)
  have f: "opt_str (overlay_front_url job_id front_path (disk w'))
             = (if front_path \<noteq> None then url ''front'' else JNull)"
    by (simp add: overlay_front_url_def p)
  have ne: "pick_overlay_url job_id v (disk w') \<noteq> Some []" for v
    by (simp add: pick_overlay_url_def Let_def results_url_def)
  have o: "opt_str (str_or (overlay_side_url job_id side_path (disk w'))
                          (overlay_front_url job_id front_path (disk w')))
             = (if side_path \<noteq> None \<and> url ''side'' \<noteq> JNull then url ''side''
                else if front_path \<noteq> None then url ''front'' else JNull)"
    using ne [of "''side''"] p [of "''side''"] p [of "''front''"]
    by (cases "pick_overlay_url job_id ''side'' (disk w')")
       (auto simp: str_or_def overlay_side_url_def overlay_front_url_def)
  show ?thesis
    unfolding served_payload(3,4,5) [OF r] s f o by simp
qed

theorem overlay_urls_witness:
  "last (writes demo_done) = RowWrite ''j1'' (Some ''done'') (Some 1) (Some ''done'')
   \<and> served_result_field ''j1'' (disk demo_done) ''overlay_side_url''
       = Inr (JStr ''/results/j1/side/overlay_release.mp4'')
   \<and> served_result_field ''j1'' (disk demo_done) ''overlay_front_url''
       = Inr (JStr ''/results/j1/front/overlay_release_web.mp4'')
   \<and> served_result_field ''j1'' (disk demo_done) ''overlay_url''
       = Inr (JStr ''/results/j1/side/overlay_release.mp4'')"
  using overlay_urls [OF demo_done_run(1) [unfolded demo_done_def], folded demo_done_def]
    demo_done_run(1) demo_done_overlays
  by simp

section \<open>The status endpoint\<close>




section \<open>Rounding to binary64\<close>

lemma round_half_even_int [simp]: "round_half_even (of_int n) = n"
  by (simp add: round_half_even_def)

lemma round_half_even_down:
  "of_int n \<le> x \<Longrightarrow> x < of_int n + 1 / 2 \<Longrightarrow> round_half_even x = n"
proof -
  assume a: "of_int n \<le> x" "x < of_int n + 1 / 2"
  then have "\<lfloor>x\<rfloor> = n" by linarith
  with a show ?thesis by (simp add: round_half_even_def)
qed

lemma round_half_even_up:
  "of_int n + 1 / 2 < x \<Longrightarrow> x < of_int n + 1 \<Longrightarrow> round_half_even x = n + 1"
proof -
  assume a: "of_int n + 1 / 2 < x" "x < of_int n + 1"
  then have "\<lfloor>x\<rfloor> = n" by linarith
  with a show ?thesis by (simp add: round_half_even_def)
qed

lemma round_half_even_ge: "of_int \<lfloor>x\<rfloor> \<le> (of_int (round_half_even x) :: real)"
  by (simp add: round_half_even_def Let_def)

lemma binade_eq:
  assumes "0 < x" "2 powr of_int k \<le> x" "x < 2 powr (of_int k + 1)"
  shows "\<lfloor>log 2 x\<rfloor> = k"
proof -
  have "of_int k \<le> log 2 x" using assms by (simp add: le_log_iff)
  moreover have "log 2 x < of_int k + 1" using assms by (simp add: log_less_iff)
  ultimately show ?thesis by linarith
qed

lemma round_to_double_eval:
  assumes "0 < x" "2 powr of_int k \<le> x" "x < 2 powr (of_int k + 1)" "- 1022 \<le> k"
  shows "round_to_double x =
           (if double_limit \<le> of_int (round_half_even (x / 2 powr (of_int k - 52))) * 2 powr (of_int k - 52)
            then PosInf
            else Finite (of_int (round_half_even (x / 2 powr (of_int k - 52))) * 2 powr (of_int k - 52)))"
  using assms binade_eq [OF assms(1-3)]
  by (simp add: round_to_double_def Let_def max_def)

lemma round_to_double_overflow:
  assumes "double_limit \<le> x"
  shows "round_to_double x = PosInf"
proof -
  have dl: "double_limit = 2 powr 1024" by (simp add: double_limit_def)
  have x0: "0 < x" using assms unfolding dl by (smt (verit) powr_gt_zero)
  define e where "e = \<lfloor>log 2 x\<rfloor>"
  from assms x0 have "1024 \<le> log 2 x" unfolding dl by (simp add: le_log_iff)
  then have e: "1024 \<le> e" unfolding e_def by linarith
  then have m: "max e (- 1022) = e" by simp
  define q :: real where "q = 2 powr (of_int e - 52)"
  have q0: "0 < q" by (simp add: q_def)
  have "of_int e \<le> log 2 x" unfolding e_def by simp
  then have le: "2 powr of_int e \<le> x" using x0 by (simp add: le_log_iff)
  have "2 powr of_int e / q = 2 powr 52"
    unfolding q_def by (simp add: powr_diff [symmetric])
  then have "2 powr 52 \<le> x / q"
    using le q0 by (metis divide_right_mono less_imp_le)
  then have "(2::real) ^ 52 \<le> x / q" by simp
  then have "(2::int) ^ 52 \<le> \<lfloor>x / q\<rfloor>" by (simp add: le_floor_iff)
  then have "(2::real) ^ 52 \<le> of_int \<lfloor>x / q\<rfloor>"
    by (metis of_int_le_iff of_int_numeral of_int_power)
  with round_half_even_ge [of "x / q"]
  have "(2::real) ^ 52 \<le> of_int (round_half_even (x / q))" by linarith
  then have "2 ^ 52 * q \<le> of_int (round_half_even (x / q)) * q"
    using q0 by simp
  moreover have "2 ^ 52 * q = 2 powr of_int e"
  proof -
    have "2 ^ 52 * q = 2 powr 52 * 2 powr (of_int e - 52)" by (simp add: q_def)
    also have "\<dots> = 2 powr (52 + (of_int e - 52))" by (simp only: powr_add)
    finally show ?thesis by simp
  qed
  moreover have "double_limit \<le> 2 powr of_int e"
    unfolding dl using e by (intro powr_mono) simp_all
  ultimately have "double_limit \<le> of_int (round_half_even (x / q)) * q" by linarith
  then show ?thesis
    using x0 by (simp add: round_to_double_def Let_def e_def [symmetric] m q_def [symmetric])
qed

lemma round_half_even_err: "\<bar>of_int (round_half_even x) - x\<bar> \<le> 1 / 2"
proof -
  have "of_int \<lfloor>x\<rfloor> \<le> x" "x < of_int \<lfloor>x\<rfloor> + 1" by linarith+
  then show ?thesis by (simp add: round_half_even_def Let_def)
qed

lemma round_half_even_le:
  assumes "x \<le> of_int k"
  shows "round_half_even x \<le> k"
proof -
  have "(of_int (round_half_even x) :: real) < of_int k + 1"
    using round_half_even_err [of x] assms by linarith
  then have "round_half_even x < k + 1"
    by (metis of_int_1 of_int_add of_int_less_iff)
  then show ?thesis by simp
qed

lemma round_half_even_nonneg:
  assumes "0 \<le> x"
  shows "0 \<le> round_half_even x"
proof -
  have "0 \<le> \<lfloor>x\<rfloor>" using assms by simp
  then show ?thesis by (simp add: round_half_even_def Let_def)
qed

lemma round_to_double_0 [simp]: "round_to_double 0 = Finite 0"
  by (simp add: round_to_double_def)

lemma round_to_double_finite:
  assumes "0 \<le> x" "x < 2 ^ 1023"
  shows "\<exists>y. round_to_double x = Finite y \<and> 0 \<le> y"
proof (cases "x = 0")
  case True
  then show ?thesis by simp
next
  case False
  with assms have x0: "0 < x" by simp
  define e where "e = max \<lfloor>log 2 x\<rfloor> (- 1022)"
  define q :: real where "q = 2 powr (of_int e - 52)"
  define y where "y = of_int (round_half_even (x / q)) * q"
  have q0: "0 < q" by (simp add: q_def)
  have "x < 2 powr 1023" using assms by simp
  then have "log 2 x < 1023" using x0 by (simp add: log_less_iff)
  then have "\<lfloor>log 2 x\<rfloor> \<le> 1022" by linarith
  then have e: "e \<le> 1022" by (simp add: e_def)
  have "log 2 x < of_int \<lfloor>log 2 x\<rfloor> + 1" by linarith
  also have "\<dots> \<le> of_int e + 1" by (simp add: e_def)
  finally have "x < 2 powr (of_int e + 1)" using x0 by (simp add: log_less_iff)
  moreover have "2 powr (of_int e + 1) = 2 ^ 53 * q"
  proof -
    have "2 ^ 53 * q = 2 powr 53 * 2 powr (of_int e - 52)" by (simp add: q_def)
    also have "\<dots> = 2 powr (53 + (of_int e - 52))" by (simp only: powr_add)
    finally show ?thesis by (simp add: add.commute)
  qed
  ultimately have "x < 2 ^ 53 * q" by simp
  note pq = \<open>2 powr (of_int e + 1) = 2 ^ 53 * q\<close>
  from \<open>x < 2 ^ 53 * q\<close> have "x / q \<le> 2 ^ 53" using q0 by (simp add: pos_divide_le_eq)
  then have "x / q \<le> of_int (2 ^ 53)" by simp
  then have "round_half_even (x / q) \<le> 2 ^ 53" by (rule round_half_even_le)
  then have "(of_int (round_half_even (x / q)) :: real) \<le> 2 ^ 53"
    by (metis of_int_le_iff of_int_numeral of_int_power)
  then have "y \<le> 2 ^ 53 * q" using q0 by (simp add: y_def)
  also have "\<dots> = 2 powr (of_int e + 1)" by (simp only: pq)
  also have "\<dots> \<le> 2 powr 1023" using e by (intro powr_mono) simp_all
  also have "\<dots> < double_limit" by (simp add: double_limit_def)
  finally have fin: "\<not> double_limit \<le> y" by simp
  have "0 \<le> round_half_even (x / q)"
    using x0 q0 by (intro round_half_even_nonneg) simp
  then have "0 \<le> y" using q0 by (simp add: y_def)
  with fin show ?thesis
    using x0 by (simp add: round_to_double_def Let_def e_def [symmetric] q_def [symmetric]
                   y_def [symmetric])
qed

lemma round_to_double_error:
  assumes "0 \<le> x" "round_to_double x = Finite y"
  shows "\<bar>y - x\<bar> \<le> x / 2 ^ 53 + 1 / 2 ^ 1075"
proof (cases "x = 0")
  case True
  with assms show ?thesis by simp
next
  case False
  with assms have x0: "0 < x" by simp
  define e where "e = max \<lfloor>log 2 x\<rfloor> (- 1022)"
  define q :: real where "q = 2 powr (of_int e - 52)"
  have q0: "0 < q" by (simp add: q_def)
  from assms(2) x0 have y: "y = of_int (round_half_even (x / q)) * q"
    by (simp add: round_to_double_def Let_def e_def [symmetric] q_def [symmetric]
          split: if_splits)
  have "\<bar>of_int (round_half_even (x / q)) - x / q\<bar> * q \<le> 1 / 2 * q"
    using round_half_even_err [of "x / q"] q0 by (intro mult_right_mono) simp_all
  moreover have "\<bar>of_int (round_half_even (x / q)) - x / q\<bar> * q = \<bar>y - x\<bar>"
  proof -
    have "\<bar>of_int (round_half_even (x / q)) - x / q\<bar> * q
            = \<bar>(of_int (round_half_even (x / q)) - x / q) * q\<bar>"
      using q0 by (simp add: abs_mult)
    also have "(of_int (round_half_even (x / q)) - x / q) * q = y - x"
      using q0 by (simp add: y left_diff_distrib)
    finally show ?thesis .
  qed
  ultimately have err: "\<bar>y - x\<bar> \<le> q / 2" by simp
  have "q / 2 \<le> x / 2 ^ 53 + 1 / 2 ^ 1075"
  proof (cases "- 1022 \<le> \<lfloor>log 2 x\<rfloor>")
    case True
    then have ee: "e = \<lfloor>log 2 x\<rfloor>" by (simp add: e_def)
    have "of_int e \<le> log 2 x" unfolding ee by simp
    then have "2 powr of_int e \<le> x" using x0 by (simp add: le_log_iff)
    moreover have "2 powr of_int e = 2 ^ 52 * q"
    proof -
      have "2 ^ 52 * q = 2 powr 52 * 2 powr (of_int e - 52)" by (simp add: q_def)
      also have "\<dots> = 2 powr (52 + (of_int e - 52))" by (simp only: powr_add)
      finally show ?thesis by simp
    qed
    ultimately have "2 ^ 52 * q \<le> x" by simp
    then have "q / 2 \<le> x / 2 ^ 53" by simp
    then show ?thesis by (smt (verit) divide_nonneg_pos zero_less_power)
  next
    case False
    then have ee: "e = - 1022" by (simp add: e_def)
    have "q = 2 powr (- 1074)" by (simp add: q_def ee)
    also have "\<dots> = 1 / 2 ^ 1074" by (simp add: powr_neg_numeral)
    finally have "q / 2 = 1 / 2 ^ 1075" by simp
    then show ?thesis using x0 by simp
  qed
  with err show ?thesis by linarith
qed

lemma round_to_double_nat_exact:
  assumes "n < 2 ^ 53"
  shows "round_to_double (real n) = Finite (real n)"
proof (cases "n = 0")
  case True
  then show ?thesis by simp
next
  case False
  then have n1: "1 \<le> real n" by simp
  then have x0: "0 < real n" by simp
  define e where "e = \<lfloor>log 2 (real n)\<rfloor>"
  have "0 \<le> log 2 (real n)" using n1 by simp
  then have e0: "0 \<le> e" by (simp add: e_def)
  have "real n < 2 ^ 53" using assms by (metis of_nat_less_iff of_nat_numeral of_nat_power)
  then have "real n < 2 powr 53" by simp
  then have "log 2 (real n) < 53" using x0 by (simp add: log_less_iff)
  then have e52: "e \<le> 52" unfolding e_def by linarith
  define d where "d = nat (52 - e)"
  have m: "max e (- 1022) = e" using e0 by simp
  have q: "(2::real) powr (of_int e - 52) = 1 / 2 ^ d"
  proof -
    have "of_int e - 52 = - real d" using e52 by (simp add: d_def)
    then show ?thesis by (simp add: powr_minus powr_realpow inverse_eq_divide)
  qed
  have "real n * 2 ^ d = of_int (int n * 2 ^ d)" by simp
  then have r: "round_half_even (real n * 2 ^ d) = int n * 2 ^ d"
    by (simp only: round_half_even_int)
  have lim: "real n < double_limit"
    using \<open>real n < 2 ^ 53\<close> by (simp add: double_limit_def)
  show ?thesis
    using x0 lim
    by (simp add: round_to_double_def Let_def e_def [symmetric] m q r)
qed

lemma round_to_double_eqI:
  assumes "0 < x" "2 powr of_int k \<le> x" "x < 2 powr (of_int k + 1)" "- 1022 \<le> k"
    and "q = 2 powr (of_int k - 52)"
    and "round_half_even (x / q) = m"
    and "of_int m * q < double_limit"
  shows "round_to_double x = Finite (of_int m * q)"
  using assms(5-7) by (simp add: round_to_double_eval [OF assms(1-4)])

lemma round_to_double_nonneg:
  assumes "0 \<le> x" "round_to_double x = Finite y"
  shows "0 \<le> y"
proof (cases "x = 0")
  case True
  with assms show ?thesis by simp
next
  case False
  with assms have x0: "0 < x" by simp
  define q :: real where "q = 2 powr (of_int (max \<lfloor>log 2 x\<rfloor> (- 1022)) - 52)"
  have q0: "0 < q" by (simp add: q_def)
  from assms(2) x0 have y: "y = of_int (round_half_even (x / q)) * q"
    by (simp add: round_to_double_def Let_def q_def [symmetric] split: if_splits)
  have "0 \<le> round_half_even (x / q)"
    using x0 q0 by (intro round_half_even_nonneg) simp
  then show ?thesis using q0 by (simp add: y)
qed

lemma float_add_error:
  assumes a: "0 \<le> a" and S: "0 \<le> S"
    and s: "round_to_double S = Finite s" and r: "round_to_double (a + s) = Finite r"
  shows "\<bar>r - (a + S)\<bar> \<le> (a + S) / 2 ^ 51 + 1 / 2 ^ 1073"
proof -
  define u :: real where "u = 1 / 2 ^ 53"
  define h :: real where "h = 1 / 2 ^ 1075"
  have u: "0 \<le> u" "u \<le> 1" and h: "0 \<le> h" by (simp_all add: u_def h_def)
  have s0: "0 \<le> s" using round_to_double_nonneg [OF S s] .
  have e1: "\<bar>s - S\<bar> \<le> S * u + h"
    using round_to_double_error [OF S s] by (simp add: u_def h_def)
  have "0 \<le> a + s" using a s0 by simp
  from round_to_double_error [OF this r]
  have e2: "\<bar>r - (a + s)\<bar> \<le> (a + s) * u + h"
    by (simp add: u_def h_def)
  have "s \<le> S + S * u + h" using e1 by linarith
  then have "(a + s) * u \<le> (a + (S + S * u + h)) * u"
    using u(1) by (intro mult_right_mono) simp_all
  also have "\<dots> = a * u + S * u + S * u * u + h * u" by (simp add: algebra_simps)
  finally have m: "(a + s) * u \<le> a * u + S * u + S * u * u + h * u" .
  have "S * u * u \<le> S * u * 1"
    using S u by (intro mult_left_mono) simp_all
  then have p1: "S * u * u \<le> S * u" by simp
  have "h * u \<le> h * 1" using h u by (intro mult_left_mono) simp_all
  then have p2: "h * u \<le> h" by simp
  have au: "0 \<le> a * u" using a u by simp
  have "\<bar>r - (a + S)\<bar> \<le> \<bar>r - (a + s)\<bar> + \<bar>s - S\<bar>" by linarith
  also have "\<dots> \<le> (a * u + S * u + S * u * u + h * u + h) + (S * u + h)"
    using e1 e2 m by linarith
  also have "\<dots> \<le> 4 * (a * u) + 4 * (S * u) + 4 * h"
    using p1 p2 au h S u by (smt (verit) mult_nonneg_nonneg)
  also have "\<dots> = (a + S) / 2 ^ 51 + 1 / 2 ^ 1073"
    by (simp add: u_def h_def algebra_simps)
  finally show ?thesis .
qed

lemma float_add_finite:
  assumes a: "0 \<le> a" and S: "0 \<le> S" and b: "a + S < 2 ^ 1000"
  shows "\<exists>s r. round_to_double S = Finite s
            \<and> float_add (Finite a) (round_to_double S) = Finite r
            \<and> round_to_double (a + s) = Finite r"
proof -
  have "S < 2 ^ 1000" using a b by linarith
  also have "\<dots> < (2::real) ^ 1023" by simp
  finally obtain s where s: "round_to_double S = Finite s" and s0: "0 \<le> s"
    using round_to_double_finite [OF S] by blast
  have "\<bar>s - S\<bar> \<le> S / 2 ^ 53 + 1 / 2 ^ 1075"
    using round_to_double_error [OF S s] .
  moreover have "S / 2 ^ 53 \<le> S" using S by (simp add: field_simps)
  moreover have "(1::real) / 2 ^ 1075 \<le> 1" by simp
  ultimately have "s \<le> 2 * S + 1" by linarith
  then have "a + s \<le> 2 * a + 2 * S + 1" using a by linarith
  also have "\<dots> < 2 * 2 ^ 1000 + 1" using b by linarith
  also have "\<dots> < (2::real) ^ 1023" by simp
  finally have "a + s < 2 ^ 1023" .
  moreover have "0 \<le> a + s" using a s0 by simp
  ultimately obtain r where r: "round_to_double (a + s) = Finite r"
    using round_to_double_finite by blast
  with s show ?thesis by (simp add: float_add_def)
qed

lemma round_to_double_345: "round_to_double 3.45 = Finite (7768709357214106 / 2 ^ 51)"
proof -
  have "round_to_double 3.45 = Finite (of_int (7768709357214105 + 1) * (1 / 2 ^ 51))"
  proof (rule round_to_double_eqI [where k = 1])
    show "(1::real) / 2 ^ 51 = 2 powr (of_int 1 - 52)"
      by (simp add: powr_neg_numeral)
    show "round_half_even (3.45 / (1 / 2 ^ 51)) = 7768709357214105 + 1"
      by (rule round_half_even_up) simp_all
    show "of_int (7768709357214105 + 1) * (1 / 2 ^ 51) < double_limit"
      by (simp add: double_limit_def)
  qed simp_all
  then show ?thesis by simp
qed

lemma round_to_double_3723:
  "round_to_double (3720 + 7768709357214106 / 2 ^ 51) = Finite (8187953140885094 / 2 ^ 41)"
proof -
  have "round_to_double (3720 + 7768709357214106 / 2 ^ 51)
          = Finite (of_int 8187953140885094 * (1 / 2 ^ 41))"
  proof (rule round_to_double_eqI [where k = 11])
    show "(1::real) / 2 ^ 41 = 2 powr (of_int 11 - 52)"
      by (simp add: powr_neg_numeral)
    show "round_half_even ((3720 + 7768709357214106 / 2 ^ 51) / (1 / 2 ^ 41)) = 8187953140885094"
      by (rule round_half_even_down) simp_all
    show "of_int 8187953140885094 * (1 / 2 ^ 41) < double_limit"
      by (simp add: double_limit_def)
  qed simp_all
  then show ?thesis by simp
qed

lemma round_to_double_3723_45: "round_to_double 3723.45 = Finite (8187953140885094 / 2 ^ 41)"
proof -
  have "round_to_double 3723.45 = Finite (of_int 8187953140885094 * (1 / 2 ^ 41))"
  proof (rule round_to_double_eqI [where k = 11])
    show "(1::real) / 2 ^ 41 = 2 powr (of_int 11 - 52)"
      by (simp add: powr_neg_numeral)
    show "round_half_even (3723.45 / (1 / 2 ^ 41)) = 8187953140885094"
      by (rule round_half_even_down) simp_all
    show "of_int 8187953140885094 * (1 / 2 ^ 41) < double_limit"
      by (simp add: double_limit_def)
  qed simp_all
  then show ?thesis by simp
qed

section \<open>The fallback duration parser\<close>

lemma digit_not_space: "is_digit c \<Longrightarrow> \<not> is_space c"
  by (auto simp: is_digit_def is_space_def)

lemma not_digit_colon [simp]: "\<not> is_digit CHR '':''" "\<not> is_digit CHR ''.''"
  by (simp_all add: is_digit_def)

lemma takeWhile_all:
  "(\<forall>c\<in>set xs. P c) \<Longrightarrow> (ys = [] \<or> \<not> P (hd ys)) \<Longrightarrow> takeWhile P (xs @ ys) = xs"
  by (cases ys) (auto simp: takeWhile_append2)

lemma dropWhile_all:
  "(\<forall>c\<in>set xs. P c) \<Longrightarrow> (ys = [] \<or> \<not> P (hd ys)) \<Longrightarrow> dropWhile P (xs @ ys) = ys"
  by (cases ys) (auto simp: dropWhile_append2)

lemma digits1_takeWhile: "takeWhile is_digit s \<noteq> [] \<Longrightarrow> digits1 (takeWhile is_digit s)"
  by (auto simp: digits1_def dest: set_takeWhileD)

lemma match_number_colon_sound:
  assumes "match_number_colon s = Some (ds, r)"
  shows "s = ds @ '':'' @ r \<and> digits1 ds"
proof -
  from assms obtain c where
    a: "takeWhile is_digit s \<noteq> []" "dropWhile is_digit s = c # r" "c = CHR '':''"
       "ds = takeWhile is_digit s"
    by (auto simp: match_number_colon_def Let_def split: if_splits list.splits)
  have "s = takeWhile is_digit s @ dropWhile is_digit s" by simp
  with a show ?thesis by (simp add: digits1_takeWhile)
qed

lemma match_number_colon_complete:
  assumes "digits1 ds"
  shows "match_number_colon (ds @ CHR '':'' # r) = Some (ds, r)"
proof -
  have "takeWhile is_digit (ds @ '':'' @ r) = ds" "dropWhile is_digit (ds @ '':'' @ r) = '':'' @ r"
    using assms by (simp_all add: digits1_def takeWhile_all dropWhile_all)
  with assms show ?thesis by (simp add: match_number_colon_def digits1_def)
qed

lemma match_seconds_sound:
  assumes "match_seconds s = Some ss"
  shows "\<exists>rest. s = ss @ rest \<and> seconds_text ss"
proof -
  let ?si = "takeWhile is_digit s" and ?r = "dropWhile is_digit s"
  have s: "s = ?si @ ?r" by simp
  from assms have ne: "?si \<noteq> []" by (auto simp: match_seconds_def Let_def split: if_splits)
  show ?thesis
  proof (cases "\<exists>r1. ?r = CHR ''.'' # r1 \<and> takeWhile is_digit r1 \<noteq> []")
    case True
    then obtain r1 where r1: "?r = CHR ''.'' # r1" "takeWhile is_digit r1 \<noteq> []" by blast
    with assms ne have ss: "ss = ?si @ ''.'' @ takeWhile is_digit r1"
      by (simp add: match_seconds_def Let_def)
    have "s = ?si @ ''.'' @ takeWhile is_digit r1 @ dropWhile is_digit r1"
      using s r1(1) by (metis append_Cons append_Nil takeWhile_dropWhile_id)
    then have "s = ss @ dropWhile is_digit r1" using ss by simp
    moreover have "seconds_text ss"
      unfolding seconds_text_def using ss ne r1(2) digits1_takeWhile by blast
    ultimately show ?thesis by blast
  next
    case False
    with assms ne have "ss = ?si"
      by (auto simp: match_seconds_def Let_def split: list.splits if_splits)
    with s ne show ?thesis
      using digits1_takeWhile seconds_text_def by metis
  qed
qed

lemma match_seconds_total:
  assumes "takeWhile is_digit s \<noteq> []"
  shows "\<exists>ss'. match_seconds s = Some ss' \<and> length (takeWhile is_digit s) \<le> length ss'"
proof (cases "dropWhile is_digit s")
  case Nil
  with assms show ?thesis by (simp add: match_seconds_def Let_def del: dropWhile_eq_Nil_conv)
next
  case (Cons c r1)
  with assms show ?thesis
    by (cases "c = CHR ''.'' \<and> takeWhile is_digit r1 \<noteq> []")
       (simp_all add: match_seconds_def Let_def)
qed

lemma match_seconds_complete:
  assumes "seconds_text ss"
  shows "\<exists>ss'. match_seconds (ss @ rest) = Some ss' \<and> length ss \<le> length ss'"
proof -
  from assms consider "digits1 ss" | i f where "ss = i @ ''.'' @ f" "digits1 i" "digits1 f"
    by (auto simp: seconds_text_def)
  then show ?thesis
  proof cases
    case 1
    then have t: "takeWhile is_digit (ss @ rest) = ss @ takeWhile is_digit rest"
      by (simp add: digits1_def takeWhile_append2)
    with 1 have ne: "takeWhile is_digit (ss @ rest) \<noteq> []" by (simp add: digits1_def)
    from match_seconds_total [OF ne] t show ?thesis by auto
  next
    case 2
    have t: "takeWhile is_digit (ss @ rest) = i"
            "dropWhile is_digit (ss @ rest) = CHR ''.'' # f @ rest"
      using 2 by (simp_all add: digits1_def takeWhile_all dropWhile_all)
    have f: "takeWhile is_digit (f @ rest) = f @ takeWhile is_digit rest"
      using 2(3) by (simp add: digits1_def takeWhile_append2)
    with 2(3) have "takeWhile is_digit (f @ rest) \<noteq> []" by (simp add: digits1_def)
    with t f 2 have "match_seconds (ss @ rest) = Some (i @ ''.'' @ f @ takeWhile is_digit rest)"
      by (simp add: match_seconds_def Let_def digits1_def)
    with 2(1) show ?thesis by simp
  qed
qed


lemma match_here_sound:
  assumes "match_here s = Some (hh, mm, ss)"
  shows "duration_match s [] hh mm ss"
proof -
  from assms have p: "take 9 s = ''Duration:''"
    by (auto simp: match_here_def split: if_splits)
  from assms p obtain r1 where
    a: "match_number_colon (dropWhile is_space (drop 9 s)) = Some (hh, r1)"
    by (auto simp: match_here_def split: option.splits)
  from assms p a obtain r2 where b: "match_number_colon r1 = Some (mm, r2)"
    by (auto simp: match_here_def split: option.splits)
  from assms p a b have c: "match_seconds r2 = Some ss"
    by (auto simp: match_here_def split: option.splits)
  from match_seconds_sound [OF c] obtain rest where r2: "r2 = ss @ rest" and ss: "seconds_text ss"
    by blast
  from match_number_colon_sound [OF b] have r1: "r1 = mm @ '':'' @ r2" and mm: "digits1 mm"
    by simp_all
  from match_number_colon_sound [OF a]
  have d: "dropWhile is_space (drop 9 s) = hh @ '':'' @ r1" and hh: "digits1 hh"
    by simp_all
  define ws where "ws = takeWhile is_space (drop 9 s)"
  have "drop 9 s = ws @ dropWhile is_space (drop 9 s)" by (simp add: ws_def)
  moreover have "s = take 9 s @ drop 9 s" by simp
  ultimately have "s = [] @ ''Duration:'' @ ws @ hh @ '':'' @ mm @ '':'' @ ss @ rest"
    using p d r1 r2 by (metis append_Nil append_assoc)
  moreover have "spaces ws"
    by (auto simp: spaces_def ws_def dest: set_takeWhileD)
  ultimately show ?thesis
    unfolding duration_match_def using hh mm ss by blast
qed

lemma match_here_complete:
  assumes "duration_match s [] hh mm ss"
  shows "\<exists>ss'. match_here s = Some (hh, mm, ss') \<and> length ss \<le> length ss'"
proof -
  from assms obtain ws rest where
    s: "s = ''Duration:'' @ ws @ hh @ '':'' @ mm @ '':'' @ ss @ rest"
    and ws: "spaces ws" and hh: "digits1 hh" and mm: "digits1 mm" and ss: "seconds_text ss"
    by (auto simp: duration_match_def)
  have p: "take 9 s = ''Duration:''" and d: "drop 9 s = ws @ (hh @ '':'' @ mm @ '':'' @ ss @ rest)"
    by (simp_all add: s)
  have "\<not> is_space (hd (hh @ '':'' @ mm @ '':'' @ ss @ rest))"
    using hh by (cases hh) (auto simp: digits1_def digit_not_space)
  then have e: "dropWhile is_space (drop 9 s) = hh @ '':'' @ (mm @ '':'' @ ss @ rest)"
    unfolding d using ws by (intro dropWhile_all) (simp_all add: spaces_def)
  from match_seconds_complete [OF ss, of rest] obtain ss' where
    m: "match_seconds (ss @ rest) = Some ss'" and l: "length ss \<le> length ss'"
    by blast
  have "match_here s = Some (hh, mm, ss')"
    unfolding match_here_def p e
    by (simp add: match_number_colon_complete [OF hh] match_number_colon_complete [OF mm] m)
  with l show ?thesis by blast
qed

lemma search_Some:
  "search inp = Some g \<longleftrightarrow>
     (\<exists>k\<le>length inp. match_here (drop k inp) = Some g
          \<and> (\<forall>i<k. match_here (drop i inp) = None))"
proof (induction inp)
  case Nil
  then show ?case by simp
next
  case (Cons c cs)
  show ?case
  proof (cases "match_here (c # cs)")
    case (Some g')
    have "(\<exists>k\<le>length (c # cs). match_here (drop k (c # cs)) = Some g
          \<and> (\<forall>i<k. match_here (drop i (c # cs)) = None)) \<longleftrightarrow> g' = g"
    proof
      assume "\<exists>k\<le>length (c # cs). match_here (drop k (c # cs)) = Some g
          \<and> (\<forall>i<k. match_here (drop i (c # cs)) = None)"
      then obtain k where k: "match_here (drop k (c # cs)) = Some g"
        "\<forall>i<k. match_here (drop i (c # cs)) = None" by blast
      have "k = 0"
      proof (rule ccontr)
        assume "k \<noteq> 0"
        then have "match_here (drop 0 (c # cs)) = None" using k(2) by blast
        with Some show False by simp
      qed
      with k(1) Some show "g' = g" by simp
    next
      assume "g' = g"
      with Some have "match_here (drop 0 (c # cs)) = Some g \<and> (\<forall>i<0::nat. match_here (drop i (c # cs)) = None)"
        by simp
      then show "\<exists>k\<le>length (c # cs). match_here (drop k (c # cs)) = Some g
          \<and> (\<forall>i<k. match_here (drop i (c # cs)) = None)"
        by blast
    qed
    with Some show ?thesis by simp
  next
    case None
    have "(\<exists>k\<le>length (c # cs). match_here (drop k (c # cs)) = Some g
          \<and> (\<forall>i<k. match_here (drop i (c # cs)) = None))
        \<longleftrightarrow> (\<exists>k\<le>length cs. match_here (drop k cs) = Some g
          \<and> (\<forall>i<k. match_here (drop i cs) = None))" (is "?L \<longleftrightarrow> ?R")
    proof
      assume ?L
      then obtain k where k: "k \<le> length (c # cs)" "match_here (drop k (c # cs)) = Some g"
        "\<forall>i<k. match_here (drop i (c # cs)) = None" by blast
      from k(2) None have "k \<noteq> 0" by (cases k) auto
      then obtain k' where k': "k = Suc k'" by (cases k) auto
      have "\<forall>i<k'. match_here (drop i cs) = None"
      proof (intro allI impI)
        fix i assume "i < k'"
        then have "Suc i < k" using k' by simp
        with k(3) have "match_here (drop (Suc i) (c # cs)) = None" by blast
        then show "match_here (drop i cs) = None" by simp
      qed
      with k k' show ?R by auto
    next
      assume ?R
      then obtain k where k: "k \<le> length cs" "match_here (drop k cs) = Some g"
        "\<forall>i<k. match_here (drop i cs) = None" by blast
      have "\<forall>i<Suc k. match_here (drop i (c # cs)) = None"
      proof (intro allI impI)
        fix i assume "i < Suc k"
        then show "match_here (drop i (c # cs)) = None"
          using None k(3) by (cases i) auto
      qed
      moreover have "match_here (drop (Suc k) (c # cs)) = Some g" using k(2) by simp
      moreover have "Suc k \<le> length (c # cs)" using k(1) by simp
      ultimately show ?L by blast
    qed
    with None Cons.IH show ?thesis by simp
  qed
qed

lemma search_None:
  "search inp = None \<longleftrightarrow> (\<forall>k\<le>length inp. match_here (drop k inp) = None)"
proof (induction inp)
  case Nil
  then show ?case by simp
next
  case (Cons c cs)
  have "(\<forall>k\<le>length (c # cs). match_here (drop k (c # cs)) = None)
      \<longleftrightarrow> match_here (c # cs) = None \<and> (\<forall>k\<le>length cs. match_here (drop k cs) = None)"
    (is "?L \<longleftrightarrow> ?R")
  proof
    assume l: ?L
    have "match_here (drop 0 (c # cs)) = None" using l by blast
    moreover have "\<forall>k\<le>length cs. match_here (drop k cs) = None"
    proof (intro allI impI)
      fix k assume "k \<le> length cs"
      then have "match_here (drop (Suc k) (c # cs)) = None" using l by auto
      then show "match_here (drop k cs) = None" by simp
    qed
    ultimately show ?R by simp
  next
    assume r: ?R
    show ?L
    proof (intro allI impI)
      fix k assume "k \<le> length (c # cs)"
      then show "match_here (drop k (c # cs)) = None"
        using r by (cases k) auto
    qed
  qed
  with Cons.IH show ?case by (simp split: option.splits)
qed


lemma duration_match_drop:
  "duration_match inp pre hh mm ss \<longleftrightarrow>
     take (length pre) inp = pre \<and> length pre \<le> length inp
     \<and> duration_match (drop (length pre) inp) [] hh mm ss"
proof
  assume "duration_match inp pre hh mm ss"
  then obtain ws rest where
    i: "inp = pre @ ''Duration:'' @ ws @ hh @ '':'' @ mm @ '':'' @ ss @ rest"
    and r: "spaces ws" "digits1 hh" "digits1 mm" "seconds_text ss"
    by (auto simp: duration_match_def)
  from i have "drop (length pre) inp = [] @ ''Duration:'' @ ws @ hh @ '':'' @ mm @ '':'' @ ss @ rest"
    by simp
  with r have "duration_match (drop (length pre) inp) [] hh mm ss"
    unfolding duration_match_def by blast
  with i show "take (length pre) inp = pre \<and> length pre \<le> length inp
     \<and> duration_match (drop (length pre) inp) [] hh mm ss"
    by simp
next
  assume a: "take (length pre) inp = pre \<and> length pre \<le> length inp
     \<and> duration_match (drop (length pre) inp) [] hh mm ss"
  then obtain ws rest where
    d: "drop (length pre) inp = [] @ ''Duration:'' @ ws @ hh @ '':'' @ mm @ '':'' @ ss @ rest"
    and r: "spaces ws" "digits1 hh" "digits1 mm" "seconds_text ss"
    unfolding duration_match_def by blast
  have "inp = take (length pre) inp @ drop (length pre) inp" by simp
  with a d have "inp = pre @ ''Duration:'' @ ws @ hh @ '':'' @ mm @ '':'' @ ss @ rest"
    by (metis append_Nil)
  with r show "duration_match inp pre hh mm ss"
    unfolding duration_match_def by blast
qed

lemma has_match_at_iff:
  "has_match_at inp k \<longleftrightarrow> k \<le> length inp \<and> match_here (drop k inp) \<noteq> None"
proof
  assume "has_match_at inp k"
  then obtain pre hh mm ss where l: "length pre = k" and d: "duration_match inp pre hh mm ss"
    by (auto simp: has_match_at_def)
  from d [THEN duration_match_drop [THEN iffD1]] l
  have "k \<le> length inp" "duration_match (drop k inp) [] hh mm ss"
    by auto
  from match_here_complete [OF this(2)] obtain ss' where
    "match_here (drop k inp) = Some (hh, mm, ss')" by blast
  with \<open>k \<le> length inp\<close> show "k \<le> length inp \<and> match_here (drop k inp) \<noteq> None"
    by simp
next
  assume a: "k \<le> length inp \<and> match_here (drop k inp) \<noteq> None"
  then obtain hh mm ss where m: "match_here (drop k inp) = Some (hh, mm, ss)"
    by (cases "match_here (drop k inp)") auto
  from a have l: "length (take k inp) = k" by simp
  from match_here_sound [OF m] l a
  have "take (length (take k inp)) inp = take k inp \<and> length (take k inp) \<le> length inp
         \<and> duration_match (drop (length (take k inp)) inp) [] hh mm ss"
    by simp
  then have "duration_match inp (take k inp) hh mm ss"
    by (rule duration_match_drop [THEN iffD2])
  with l show "has_match_at inp k" unfolding has_match_at_def by blast
qed

lemma no_match_at_iff:
  "\<not> has_match_at inp k \<longleftrightarrow> (k \<le> length inp \<longrightarrow> match_here (drop k inp) = None)"
  unfolding has_match_at_iff by (cases "match_here (drop k inp)") simp_all

lemma match_here_longest:
  assumes m: "match_here s = Some (hh, mm, ss)" and d: "duration_match s [] hh' mm' ss'"
  shows "hh' = hh \<and> mm' = mm \<and> length ss' \<le> length ss"
  using match_here_complete [OF d] m by auto

lemma duration_match_same_length:
  assumes a: "duration_match s [] hh mm ss" and b: "duration_match s [] hh mm ss'"
    and l: "length ss = length ss'"
  shows "ss = ss'"
proof -
  from a obtain ws rest where
    s1: "s = ''Duration:'' @ ws @ hh @ '':'' @ mm @ '':'' @ ss @ rest"
    and w1: "spaces ws" and hh: "digits1 hh"
    by (auto simp: duration_match_def)
  from b obtain ws' rest' where
    s2: "s = ''Duration:'' @ ws' @ hh @ '':'' @ mm @ '':'' @ ss' @ rest'"
    and w2: "spaces ws'"
    by (auto simp: duration_match_def)
  have nsp: "\<not> is_space (hd (hh @ t))" for t
    using hh by (cases hh) (auto simp: digits1_def digit_not_space)
  have "takeWhile is_space (ws @ (hh @ '':'' @ mm @ '':'' @ ss @ rest)) = ws"
    using w1 nsp by (intro takeWhile_all) (simp_all add: spaces_def)
  moreover have "takeWhile is_space (ws' @ (hh @ '':'' @ mm @ '':'' @ ss' @ rest')) = ws'"
    using w2 nsp by (intro takeWhile_all) (simp_all add: spaces_def)
  moreover have "ws @ (hh @ '':'' @ mm @ '':'' @ ss @ rest) = ws' @ (hh @ '':'' @ mm @ '':'' @ ss' @ rest')"
    using s1 s2 by simp
  ultimately have "ws = ws'" by (simp only:)
  with s1 s2 have "ss @ rest = ss' @ rest'" by simp
  with l show ?thesis by simp
qed

lemma digit_of_digits:
  "digit_of CHR ''0'' = 0" "digit_of CHR ''1'' = 1" "digit_of CHR ''2'' = 2"
  "digit_of CHR ''3'' = 3" "digit_of CHR ''4'' = 4" "digit_of CHR ''5'' = 5"
  "digit_of CHR ''6'' = 6" "digit_of CHR ''7'' = 7" "digit_of CHR ''8'' = 8"
  "digit_of CHR ''9'' = 9"
  by (simp_all add: digit_of_def)

lemma of_char_digit: "is_digit c \<Longrightarrow> of_char c - 48 = digit_of c"
  unfolding is_digit_def by (auto simp: digit_of_digits)

lemma foldl_digits:
  "\<forall>c\<in>set s. is_digit c \<Longrightarrow>
     foldl (\<lambda>a c. 10 * a + (of_char c - 48)) a s = a * 10 ^ length s + digits_value s"
proof (induction s arbitrary: a)
  case Nil
  then show ?case by simp
next
  case (Cons c cs)
  then show ?case by (simp add: of_char_digit algebra_simps)
qed

lemma nat_of_digits_value: "\<forall>c\<in>set s. is_digit c \<Longrightarrow> nat_of_digits s = digits_value s"
  by (simp add: nat_of_digits_def foldl_digits)

lemma decimal_value_parts:
  assumes "seconds_parts ss si fr"
  shows "decimal_value ss = real (digits_value si) + real (digits_value fr) / 10 ^ length fr"
proof -
  from assms have si: "\<forall>c\<in>set si. is_digit c" by (simp add: seconds_parts_def digits1_def)
  from assms consider "fr = []" "ss = si" | "digits1 fr" "ss = si @ ''.'' @ fr"
    by (auto simp: seconds_parts_def)
  then show ?thesis
  proof cases
    case 1
    have "dropWhile is_digit si = []" using si by simp
    with 1 si show ?thesis
      by (simp add: decimal_value_def nat_of_digits_value del: dropWhile_eq_Nil_conv)
  next
    case 2
    have "takeWhile is_digit ss = si" "dropWhile is_digit ss = ''.'' @ fr"
      using si 2(2) by (simp_all add: takeWhile_all dropWhile_all)
    with 2(1) si show ?thesis
      by (simp add: decimal_value_def nat_of_digits_value digits1_def)
  qed
qed

lemma seconds_text_parts: "seconds_text ss \<longleftrightarrow> (\<exists>si fr. seconds_parts ss si fr)"
  by (auto simp: seconds_text_def seconds_parts_def)

lemma search_first_match:
  "search inp = Some (hh, mm, ss) \<longleftrightarrow> (\<exists>pre. first_match inp pre hh mm ss)"
proof
  assume s: "search inp = Some (hh, mm, ss)"
  from s obtain k where k: "k \<le> length inp" "match_here (drop k inp) = Some (hh, mm, ss)"
    "\<forall>i<k. match_here (drop i inp) = None"
    unfolding search_Some by blast
  define pre where "pre = take k inp"
  have lp: "length pre = k" using k(1) by (simp add: pre_def)
  have "take (length pre) inp = pre \<and> length pre \<le> length inp
         \<and> duration_match (drop (length pre) inp) [] hh mm ss"
    using match_here_sound [OF k(2)] k(1) lp by (simp add: pre_def)
  then have dm: "duration_match inp pre hh mm ss"
    by (rule duration_match_drop [THEN iffD2])
  have first: "\<forall>i<length pre. \<not> has_match_at inp i"
    using k(3) lp by (simp add: no_match_at_iff)
  have longest: "\<forall>ss'. duration_match inp pre hh mm ss' \<longrightarrow> length ss' \<le> length ss"
  proof (intro allI impI)
    fix ss' assume "duration_match inp pre hh mm ss'"
    then have "duration_match (drop (length pre) inp) [] hh mm ss'"
      by (rule duration_match_drop [THEN iffD1, THEN conjunct2, THEN conjunct2])
    then have "duration_match (drop k inp) [] hh mm ss'"
      using lp by simp
    with match_here_longest [OF k(2)] show "length ss' \<le> length ss" by blast
  qed
  from dm first longest show "\<exists>pre. first_match inp pre hh mm ss"
    unfolding first_match_def by blast
next
  assume "\<exists>pre. first_match inp pre hh mm ss"
  then obtain pre where d: "duration_match inp pre hh mm ss"
    and first: "\<forall>k<length pre. \<not> has_match_at inp k"
    and longest: "\<forall>ss'. duration_match inp pre hh mm ss' \<longrightarrow> length ss' \<le> length ss"
    unfolding first_match_def by blast
  let ?k = "length pre"
  from d [THEN duration_match_drop [THEN iffD1]]
  have p: "take ?k inp = pre" "?k \<le> length inp"
    and d0: "duration_match (drop ?k inp) [] hh mm ss"
    by simp_all
  from match_here_complete [OF d0] obtain ss' where
    m: "match_here (drop ?k inp) = Some (hh, mm, ss')" and l: "length ss \<le> length ss'"
    by blast
  from match_here_sound [OF m] p
  have "take (length pre) inp = pre \<and> length pre \<le> length inp
         \<and> duration_match (drop (length pre) inp) [] hh mm ss'"
    by simp
  then have "duration_match inp pre hh mm ss'"
    by (rule duration_match_drop [THEN iffD2])
  with longest have "length ss' \<le> length ss" by blast
  with l have "length ss = length ss'" by simp
  with duration_match_same_length [OF d0 match_here_sound [OF m]] have "ss = ss'" by simp
  with m have m': "match_here (drop ?k inp) = Some (hh, mm, ss)" by simp
  have "\<forall>i<?k. match_here (drop i inp) = None"
    using first p(2) by (simp add: no_match_at_iff)
  with m' p(2) show "search inp = Some (hh, mm, ss)"
    unfolding search_Some by blast
qed

lemma first_match_nonempty: "first_match inp pre hh mm ss \<Longrightarrow> inp \<noteq> []"
  by (auto simp: first_match_def duration_match_def)

lemma first_match_groups:
  "first_match inp pre hh mm ss \<Longrightarrow> digits1 hh \<and> digits1 mm \<and> seconds_text ss"
  by (auto simp: first_match_def duration_match_def)

lemma parse_None_iff:
  "parse_duration_from_ffmpeg_stderr maxd inp = Inr None \<longleftrightarrow> \<not> (\<exists>k. has_match_at inp k)"
proof (cases "inp = []")
  case True
  then show ?thesis
    by (simp add: parse_duration_from_ffmpeg_stderr_def has_match_at_iff match_here_def)
next
  case False
  then have "parse_duration_from_ffmpeg_stderr maxd inp = Inr None \<longleftrightarrow> search inp = None"
    by (simp add: parse_duration_from_ffmpeg_stderr_def float_of_int_def Let_def
          split: option.splits sum.splits pyfloat.splits)
  then show ?thesis
    by (auto simp: search_None has_match_at_iff)
qed

lemma parse_first_match:
  assumes fm: "first_match inp pre hh mm ss" and sp: "seconds_parts ss si fr"
  shows "parse_duration_from_ffmpeg_stderr maxd inp =
           (if 0 < maxd \<and> maxd < length hh \<and> 640 < length hh
            then Inl (int_too_long maxd (length hh))
            else if 0 < maxd \<and> maxd < length mm \<and> 640 < length mm
            then Inl (int_too_long maxd (length mm))
            else case round_to_double (real (digits_value hh * 3600 + digits_value mm * 60)) of
                   PosInf \<Rightarrow> Inl (''OverflowError'', ''int too large to convert to float'')
                 | Finite x \<Rightarrow>
                     Inr (Some (float_add (Finite x)
                            (round_to_double (real (digits_value si)
                               + real (digits_value fr) / 10 ^ length fr)))))"
proof -
  from fm have s: "search inp = Some (hh, mm, ss)"
    using search_first_match by blast
  from first_match_groups [OF fm] have
    h: "nat_of_digits hh = digits_value hh" and m: "nat_of_digits mm = digits_value mm"
    by (simp_all add: digits1_def nat_of_digits_value)
  show ?thesis
    using first_match_nonempty [OF fm]
    by (simp add: parse_duration_from_ffmpeg_stderr_def s py_int_def h m float_of_int_def
          float_of_decimal_def decimal_value_parts [OF sp] Let_def split: pyfloat.splits)
qed

lemma parse_value_first_match:
  assumes "parse_duration_from_ffmpeg_stderr maxd inp \<noteq> Inr None"
  shows "\<exists>pre hh mm ss si fr. first_match inp pre hh mm ss \<and> seconds_parts ss si fr"
proof -
  have "search inp \<noteq> None"
  proof
    assume "search inp = None"
    then have "parse_duration_from_ffmpeg_stderr maxd inp = Inr None"
      by (simp add: parse_duration_from_ffmpeg_stderr_def)
    with assms show False by simp
  qed
  then obtain hh mm ss where s: "search inp = Some (hh, mm, ss)"
    by (cases "search inp") auto
  then obtain pre where fm: "first_match inp pre hh mm ss"
    using search_first_match by blast
  from first_match_groups [OF fm] obtain si fr where "seconds_parts ss si fr"
    using seconds_text_parts by blast
  with fm show ?thesis by blast
qed

lemma parse_accurate:
  fixes n :: nat and S :: real
  assumes fm: "first_match inp pre hh mm ss" and sp: "seconds_parts ss si fr"
    and lim: "maxd = 0 \<or> length hh \<le> max maxd 640 \<and> length mm \<le> max maxd 640"
    and n: "n = digits_value hh * 3600 + digits_value mm * 60"
    and S: "S = real (digits_value si) + real (digits_value fr) / 10 ^ length fr"
    and small: "n < 2 ^ 53" "real n + S < 2 ^ 1000"
  shows "\<exists>r. parse_duration_from_ffmpeg_stderr maxd inp = Inr (Some (Finite r))
           \<and> \<bar>r - (real n + S)\<bar> \<le> (real n + S) / 2 ^ 51 + 1 / 2 ^ 1073"
proof -
  have S0: "0 \<le> S" by (simp add: S)
  have n0: "0 \<le> real n" by simp
  from float_add_finite [OF n0 S0 small(2)] obtain s r where
    s: "round_to_double S = Finite s"
    and fa: "float_add (Finite (real n)) (round_to_double S) = Finite r"
    and r: "round_to_double (real n + s) = Finite r"
    by blast
  have ex: "round_to_double (real n) = Finite (real n)"
    using small(1) by (rule round_to_double_nat_exact)
  have "parse_duration_from_ffmpeg_stderr maxd inp = Inr (Some (Finite r))"
    unfolding parse_first_match [OF fm sp] n [symmetric] S [symmetric] ex
    using lim fa by auto
  with float_add_error [OF n0 S0 s r] show ?thesis by blast
qed

lemma parse_overflow:
  assumes fm: "first_match inp pre hh mm ss"
    and lim: "maxd = 0 \<or> length hh \<le> max maxd 640 \<and> length mm \<le> max maxd 640"
    and big: "2 ^ 1024 \<le> real (digits_value hh * 3600 + digits_value mm * 60)"
  shows "parse_duration_from_ffmpeg_stderr maxd inp
           = Inl (''OverflowError'', ''int too large to convert to float'')"
proof -
  from first_match_groups [OF fm] obtain si fr where sp: "seconds_parts ss si fr"
    using seconds_text_parts by blast
  have "round_to_double (real (digits_value hh * 3600 + digits_value mm * 60)) = PosInf"
    using big by (intro round_to_double_overflow) (simp add: double_limit_def)
  then show ?thesis
    unfolding parse_first_match [OF fm sp] using lim by auto
qed

lemma parse_infinite:
  assumes fm: "first_match inp pre hh mm ss" and sp: "seconds_parts ss si fr"
    and lim: "maxd = 0 \<or> length hh \<le> max maxd 640 \<and> length mm \<le> max maxd 640"
    and small: "digits_value hh * 3600 + digits_value mm * 60 < 2 ^ 53"
    and big: "2 ^ 1024 \<le> real (digits_value si) + real (digits_value fr) / 10 ^ length fr"
  shows "parse_duration_from_ffmpeg_stderr maxd inp = Inr (Some PosInf)"
proof -
  have "round_to_double (real (digits_value si) + real (digits_value fr) / 10 ^ length fr)
          = PosInf"
    using big by (intro round_to_double_overflow) (simp add: double_limit_def)
  moreover have "round_to_double (real (digits_value hh * 3600 + digits_value mm * 60))
          = Finite (real (digits_value hh * 3600 + digits_value mm * 60))"
    using small by (rule round_to_double_nat_exact)
  ultimately show ?thesis
    unfolding parse_first_match [OF fm sp] using lim by (auto simp: float_add_def)
qed

lemma duration_3723:
  "(case round_to_double (real (digits_value ''01'' * 3600 + digits_value ''02'' * 60)) of
      PosInf \<Rightarrow> Inl e
    | Finite x \<Rightarrow>
        Inr (Some (float_add (Finite x)
               (round_to_double (real (digits_value ''03'')
                  + real (digits_value ''45'') / 10 ^ length ''45'')))))
   = Inr (Some (Finite (8187953140885094 / 2 ^ 41)))"
proof -
  have n: "digits_value ''01'' * 3600 + digits_value ''02'' * 60 = 3720"
    by (simp add: digit_of_digits)
  have "(3720::nat) < 2 ^ 53" by simp
  then have ex: "round_to_double (real (3720::nat)) = Finite (real (3720::nat))"
    by (rule round_to_double_nat_exact)
  have S: "real (digits_value ''03'') + real (digits_value ''45'') / 10 ^ length ''45'' = 3.45"
    by (simp add: digit_of_digits)
  have "float_add (Finite (real (3720::nat))) (round_to_double 3.45)
          = Finite (8187953140885094 / 2 ^ 41)"
    unfolding round_to_double_345 float_add_def
    using round_to_double_3723 by simp
  then show ?thesis
    unfolding n S ex by simp
qed

lemma match_here_example:
  assumes "rest = [] \<or> \<not> is_digit (hd rest)"
  shows "match_here (''Duration: 01:02:03.45'' @ rest) = Some (''01'', ''02'', ''03.45'')"
proof (cases rest)
  case Nil
  then show ?thesis
    by (simp add: match_here_def match_number_colon_def match_seconds_def is_digit_def
          is_space_def Let_def)
next
  case (Cons c cs)
  with assms have "\<not> is_digit c" by simp
  then have "takeWhile is_digit (c # cs) = []" by simp
  with Cons show ?thesis
    by (simp add: match_here_def match_number_colon_def match_seconds_def Let_def)
       (simp add: is_digit_def is_space_def)
qed

lemma first_match_example:
  assumes first: "\<forall>k<length pre. \<not> has_match_at (pre @ ''Duration: 01:02:03.45'' @ rest) k"
    and nd: "rest = [] \<or> \<not> is_digit (hd rest)"
  shows "first_match (pre @ ''Duration: 01:02:03.45'' @ rest) pre ''01'' ''02'' ''03.45''"
proof -
  let ?inp = "pre @ ''Duration: 01:02:03.45'' @ rest"
  have m: "match_here (drop (length pre) ?inp) = Some (''01'', ''02'', ''03.45'')"
    using match_here_example [OF nd] by simp
  have dm0: "duration_match (drop (length pre) ?inp) [] ''01'' ''02'' ''03.45''"
    using match_here_sound [OF m] .
  have "take (length pre) ?inp = pre \<and> length pre \<le> length ?inp
         \<and> duration_match (drop (length pre) ?inp) [] ''01'' ''02'' ''03.45''"
    using dm0 by simp
  then have dm: "duration_match ?inp pre ''01'' ''02'' ''03.45''"
    by (rule duration_match_drop [THEN iffD2])
  have longest: "\<forall>ss'. duration_match ?inp pre ''01'' ''02'' ss'
                   \<longrightarrow> length ss' \<le> length ''03.45''"
  proof (intro allI impI)
    fix ss' assume "duration_match ?inp pre ''01'' ''02'' ss'"
    then have "duration_match (drop (length pre) ?inp) [] ''01'' ''02'' ss'"
      by (rule duration_match_drop [THEN iffD1, THEN conjunct2, THEN conjunct2])
    with match_here_longest [OF m] show "length ss' \<le> length ''03.45''" by blast
  qed
  from dm first longest show ?thesis unfolding first_match_def by blast
qed

lemma seconds_parts_example: "seconds_parts ''03.45'' ''03'' ''45''"
  by (simp add: seconds_parts_def digits1_def is_digit_def)

lemma parse_example:
  assumes first: "\<forall>k<length pre. \<not> has_match_at (pre @ ''Duration: 01:02:03.45'' @ rest) k"
    and nd: "rest = [] \<or> \<not> is_digit (hd rest)"
  shows "parse_duration_from_ffmpeg_stderr maxd (pre @ ''Duration: 01:02:03.45'' @ rest)
           = Inr (Some (Finite (8187953140885094 / 2 ^ 41)))"
proof -
  have l: "\<not> (0 < maxd \<and> maxd < length ''01'' \<and> 640 < length ''01'')"
    "\<not> (0 < maxd \<and> maxd < length ''02'' \<and> 640 < length ''02'')"
    by simp_all
  show ?thesis
    unfolding parse_first_match [OF first_match_example [OF first nd] seconds_parts_example]
      if_not_P [OF l(1)] if_not_P [OF l(2)]
    by (rule duration_3723)
qed

lemma digits_value_nines: "digits_value (replicate n CHR ''9'') + 1 = 10 ^ n"
  by (induction n) (simp_all add: digit_of_digits)

lemma search_here: "match_here inp = Some g \<Longrightarrow> search inp = Some g"
  by (cases inp) simp_all

text \<open>
  Claim C8. The fallback parser returns no value on the empty input and exactly when the
  pattern \<^verbatim>\<open>Duration: H:MM:SS(.fff)\<close> matches nowhere; otherwise the pattern has a first
  (leftmost) match with a longest seconds group, and the result is determined by its
  groups. With \<open>maxd\<close> the interpreter's limit on integer strings: a group of hours or
  minutes longer than 640 digits and than a non-zero \<open>maxd\<close> raises \<^verbatim>\<open>ValueError\<close>;
  otherwise an integer hours * 3600 + minutes * 60 that is too large for a double raises
  \<^verbatim>\<open>OverflowError\<close>; otherwise the result is the float sum of that integer, rounded to
  a double, and of the seconds, rounded to a double. When the integer is below \<open>2 ^ 53\<close>
  and the exact value hours * 3600 + minutes * 60 + seconds below \<open>2 ^ 1000\<close>, the result
  is finite and differs from the exact value by at most the value times \<open>2 ^ -51\<close> plus
  \<open>2 ^ -1073\<close>; an integer of \<open>2 ^ 1024\<close> or more raises \<^verbatim>\<open>OverflowError\<close>, seconds of
  \<open>2 ^ 1024\<close> or more give \<^verbatim>\<open>inf\<close>. In particular an input whose first match is
  \<^verbatim>\<open>Duration: 01:02:03.45\<close> gives the double \<open>8187953140885094 / 2 ^ 41\<close>, which is the
  float \<^verbatim>\<open>3723.45\<close>: it lies within half a unit in the last place, \<open>2 ^ -42\<close>, of 3723.45.
\<close>

theorem parse_duration_spec:
  "parse_duration_from_ffmpeg_stderr maxd [] = Inr None
   \<and> (parse_duration_from_ffmpeg_stderr maxd inp = Inr None \<longleftrightarrow> \<not> (\<exists>k. has_match_at inp k))
   \<and> (parse_duration_from_ffmpeg_stderr maxd inp \<noteq> Inr None \<longrightarrow>
        (\<exists>pre hh mm ss si fr. first_match inp pre hh mm ss \<and> seconds_parts ss si fr))
   \<and> (\<forall>pre hh mm ss si fr.
         first_match inp pre hh mm ss \<and> seconds_parts ss si fr \<longrightarrow>
         parse_duration_from_ffmpeg_stderr maxd inp =
           (if 0 < maxd \<and> maxd < length hh \<and> 640 < length hh
            then Inl (int_too_long maxd (length hh))
            else if 0 < maxd \<and> maxd < length mm \<and> 640 < length mm
            then Inl (int_too_long maxd (length mm))
            else case round_to_double (real (digits_value hh * 3600 + digits_value mm * 60)) of
                   PosInf \<Rightarrow> Inl (''OverflowError'', ''int too large to convert to float'')
                 | Finite x \<Rightarrow>
                     Inr (Some (float_add (Finite x)
                            (round_to_double (real (digits_value si)
                               + real (digits_value fr) / 10 ^ length fr))))))
   \<and> (\<forall>pre hh mm ss si fr.
         first_match inp pre hh mm ss \<and> seconds_parts ss si fr
         \<and> (maxd = 0 \<or> length hh \<le> max maxd 640 \<and> length mm \<le> max maxd 640)
         \<and> digits_value hh * 3600 + digits_value mm * 60 < 2 ^ 53
         \<and> real (digits_value hh * 3600 + digits_value mm * 60)
             + (real (digits_value si) + real (digits_value fr) / 10 ^ length fr) < 2 ^ 1000
         \<longrightarrow>
         (\<exists>r. parse_duration_from_ffmpeg_stderr maxd inp = Inr (Some (Finite r))
            \<and> \<bar>r - (real (digits_value hh * 3600 + digits_value mm * 60)
                     + (real (digits_value si) + real (digits_value fr) / 10 ^ length fr))\<bar>
                \<le> (real (digits_value hh * 3600 + digits_value mm * 60)
                     + (real (digits_value si) + real (digits_value fr) / 10 ^ length fr)) / 2 ^ 51
                   + 1 / 2 ^ 1073))
   \<and> (\<forall>pre hh mm ss.
         first_match inp pre hh mm ss
         \<and> (maxd = 0 \<or> length hh \<le> max maxd 640 \<and> length mm \<le> max maxd 640)
         \<and> 2 ^ 1024 \<le> real (digits_value hh * 3600 + digits_value mm * 60)
         \<longrightarrow> parse_duration_from_ffmpeg_stderr maxd inp
               = Inl (''OverflowError'', ''int too large to convert to float''))
   \<and> (\<forall>pre hh mm ss si fr.
         first_match inp pre hh mm ss \<and> seconds_parts ss si fr
         \<and> (maxd = 0 \<or> length hh \<le> max maxd 640 \<and> length mm \<le> max maxd 640)
         \<and> digits_value hh * 3600 + digits_value mm * 60 < 2 ^ 53
         \<and> 2 ^ 1024 \<le> real (digits_value si) + real (digits_value fr) / 10 ^ length fr
         \<longrightarrow> parse_duration_from_ffmpeg_stderr maxd inp = Inr (Some PosInf))
   \<and> (\<forall>pre rest.
         (\<forall>k<length pre. \<not> has_match_at (pre @ ''Duration: 01:02:03.45'' @ rest) k)
         \<and> (rest = [] \<or> \<not> is_digit (hd rest))
         \<longrightarrow> parse_duration_from_ffmpeg_stderr maxd (pre @ ''Duration: 01:02:03.45'' @ rest)
               = Inr (Some (Finite (8187953140885094 / 2 ^ 41))))
   \<and> \<bar>8187953140885094 / 2 ^ 41 - (3723.45 :: real)\<bar> < 1 / 2 ^ 42"
proof (intro conjI allI impI)
  show "parse_duration_from_ffmpeg_stderr maxd [] = Inr None"
    by (simp add: parse_duration_from_ffmpeg_stderr_def)
  show "parse_duration_from_ffmpeg_stderr maxd inp = Inr None \<longleftrightarrow> \<not> (\<exists>k. has_match_at inp k)"
    by (rule parse_None_iff)
  show "\<bar>8187953140885094 / 2 ^ 41 - (3723.45 :: real)\<bar> < 1 / 2 ^ 42"
    by simp
next
  assume "parse_duration_from_ffmpeg_stderr maxd inp \<noteq> Inr None"
  then show "\<exists>pre hh mm ss si fr. first_match inp pre hh mm ss \<and> seconds_parts ss si fr"
    by (rule parse_value_first_match)
next
  fix pre hh mm ss si fr
  assume "first_match inp pre hh mm ss \<and> seconds_parts ss si fr"
  then show "parse_duration_from_ffmpeg_stderr maxd inp =
           (if 0 < maxd \<and> maxd < length hh \<and> 640 < length hh
            then Inl (int_too_long maxd (length hh))
            else if 0 < maxd \<and> maxd < length mm \<and> 640 < length mm
            then Inl (int_too_long maxd (length mm))
            else case round_to_double (real (digits_value hh * 3600 + digits_value mm * 60)) of
                   PosInf \<Rightarrow> Inl (''OverflowError'', ''int too large to convert to float'')
                 | Finite x \<Rightarrow>
                     Inr (Some (float_add (Finite x)
                            (round_to_double (real (digits_value si)
                               + real (digits_value fr) / 10 ^ length fr)))))"
    using parse_first_match [of inp pre hh mm ss si fr maxd] by blast
next
  fix pre hh mm ss si fr
  assume a: "first_match inp pre hh mm ss \<and> seconds_parts ss si fr
         \<and> (maxd = 0 \<or> length hh \<le> max maxd 640 \<and> length mm \<le> max maxd 640)
         \<and> digits_value hh * 3600 + digits_value mm * 60 < 2 ^ 53
         \<and> real (digits_value hh * 3600 + digits_value mm * 60)
             + (real (digits_value si) + real (digits_value fr) / 10 ^ length fr) < 2 ^ 1000"
  show "\<exists>r. parse_duration_from_ffmpeg_stderr maxd inp = Inr (Some (Finite r))
            \<and> \<bar>r - (real (digits_value hh * 3600 + digits_value mm * 60)
                     + (real (digits_value si) + real (digits_value fr) / 10 ^ length fr))\<bar>
                \<le> (real (digits_value hh * 3600 + digits_value mm * 60)
                     + (real (digits_value si) + real (digits_value fr) / 10 ^ length fr)) / 2 ^ 51
                   + 1 / 2 ^ 1073"
    by (rule parse_accurate [OF a [THEN conjunct1] a [THEN conjunct2, THEN conjunct1]
              a [THEN conjunct2, THEN conjunct2, THEN conjunct1] refl refl
              a [THEN conjunct2, THEN conjunct2, THEN conjunct2, THEN conjunct1]
              a [THEN conjunct2, THEN conjunct2, THEN conjunct2, THEN conjunct2]])
next
  fix pre hh mm ss
  assume a: "first_match inp pre hh mm ss
         \<and> (maxd = 0 \<or> length hh \<le> max maxd 640 \<and> length mm \<le> max maxd 640)
         \<and> 2 ^ 1024 \<le> real (digits_value hh * 3600 + digits_value mm * 60)"
  show "parse_duration_from_ffmpeg_stderr maxd inp
               = Inl (''OverflowError'', ''int too large to convert to float'')"
    by (rule parse_overflow [OF a [THEN conjunct1] a [THEN conjunct2, THEN conjunct1]
              a [THEN conjunct2, THEN conjunct2]])
next
  fix pre hh mm ss si fr
  assume a: "first_match inp pre hh mm ss \<and> seconds_parts ss si fr
         \<and> (maxd = 0 \<or> length hh \<le> max maxd 640 \<and> length mm \<le> max maxd 640)
         \<and> digits_value hh * 3600 + digits_value mm * 60 < 2 ^ 53
         \<and> 2 ^ 1024 \<le> real (digits_value si) + real (digits_value fr) / 10 ^ length fr"
  show "parse_duration_from_ffmpeg_stderr maxd inp = Inr (Some PosInf)"
    by (rule parse_infinite [OF a [THEN conjunct1] a [THEN conjunct2, THEN conjunct1]
              a [THEN conjunct2, THEN conjunct2, THEN conjunct1]
              a [THEN conjunct2, THEN conjunct2, THEN conjunct2, THEN conjunct1]
              a [THEN conjunct2, THEN conjunct2, THEN conjunct2, THEN conjunct2]])
next
  fix pre rest
  assume a: "(\<forall>k<length pre. \<not> has_match_at (pre @ ''Duration: 01:02:03.45'' @ rest) k)
         \<and> (rest = [] \<or> \<not> is_digit (hd rest))"
  show "parse_duration_from_ffmpeg_stderr maxd (pre @ ''Duration: 01:02:03.45'' @ rest)
               = Inr (Some (Finite (8187953140885094 / 2 ^ 41)))"
    by (rule parse_example [OF a [THEN conjunct1] a [THEN conjunct2]])
qed

theorem parse_duration_spec_witness:
  "parse_duration_from_ffmpeg_stderr 4300 ffmpeg_banner
     = Inr (Some (Finite (8187953140885094 / 2 ^ 41)))
   \<and> first_match ffmpeg_banner ''  '' ''01'' ''02'' ''03.45''
   \<and> seconds_parts ''03.45'' ''03'' ''45''
   \<and> parse_duration_from_ffmpeg_stderr 4300 ''Duration: N/A, bitrate: N/A'' = Inr None"
proof -
  have first: "\<forall>k<length ''  ''.
      \<not> has_match_at (''  '' @ ''Duration: 01:02:03.45'' @ '', start: 0.000000, bitrate: 1 kb/s'') k"
  proof (intro allI impI)
    fix k :: nat assume "k < length ''  ''"
    then consider "k = 0" | "k = 1" by force
    then show "\<not> has_match_at
        (''  '' @ ''Duration: 01:02:03.45'' @ '', start: 0.000000, bitrate: 1 kb/s'') k"
      by cases (simp_all add: no_match_at_iff match_here_def)
  qed
  have "first_match (''  '' @ ''Duration: 01:02:03.45'' @ '', start: 0.000000, bitrate: 1 kb/s'')
          ''  '' ''01'' ''02'' ''03.45''"
    by (rule first_match_example [OF first]) (simp add: is_digit_def)
  then have fm: "first_match ffmpeg_banner ''  '' ''01'' ''02'' ''03.45''"
    by (simp add: ffmpeg_banner_def)
  have "parse_duration_from_ffmpeg_stderr 4300 ffmpeg_banner
          = (if 0 < (4300::nat) \<and> 4300 < length ''01'' \<and> 640 < length ''01''
            then Inl (int_too_long 4300 (length ''01''))
            else if 0 < (4300::nat) \<and> 4300 < length ''02'' \<and> 640 < length ''02''
            then Inl (int_too_long 4300 (length ''02''))
            else case round_to_double (real (digits_value ''01'' * 3600 + digits_value ''02'' * 60)) of
                   PosInf \<Rightarrow> Inl (''OverflowError'', ''int too large to convert to float'')
                 | Finite x \<Rightarrow>
                     Inr (Some (float_add (Finite x)
                            (round_to_double (real (digits_value ''03'')
                               + real (digits_value ''45'') / 10 ^ length ''45'')))))"
    by (rule parse_duration_spec [of 4300 ffmpeg_banner, THEN conjunct2, THEN conjunct2,
              THEN conjunct2, THEN conjunct1, rule_format, of "''  ''" "''01''" "''02''"
              "''03.45''" "''03''" "''45''"])
       (intro conjI fm seconds_parts_example)
  also have "\<dots> = (case round_to_double (real (digits_value ''01'' * 3600 + digits_value ''02'' * 60)) of
                   PosInf \<Rightarrow> Inl (''OverflowError'', ''int too large to convert to float'')
                 | Finite x \<Rightarrow>
                     Inr (Some (float_add (Finite x)
                            (round_to_double (real (digits_value ''03'')
                               + real (digits_value ''45'') / 10 ^ length ''45'')))))"
    by simp
  also have "\<dots> = Inr (Some (Finite (8187953140885094 / 2 ^ 41)))"
    by (rule duration_3723)
  finally have a: "parse_duration_from_ffmpeg_stderr 4300 ffmpeg_banner
          = Inr (Some (Finite (8187953140885094 / 2 ^ 41)))" .
  have b: "parse_duration_from_ffmpeg_stderr 4300 ''Duration: N/A, bitrate: N/A'' = Inr None"
    by (simp add: parse_duration_from_ffmpeg_stderr_def match_here_def match_number_colon_def
          is_digit_def is_space_def Let_def)
  from a fm seconds_parts_example b show ?thesis by blast
qed

text \<open>
  The parser does not return a value on every input with a match: with the default
  limit of 4300 digits, an hour group of 310 nines is accepted by \<^verbatim>\<open>int\<close> and the sum
  then raises \<^verbatim>\<open>OverflowError\<close>.
\<close>

theorem parse_duration_overflow_counterexample:
  "parse_duration_from_ffmpeg_stderr 4300 (''Duration: '' @ replicate 310 CHR ''9'' @ '':00:00'')
     = Inl (''OverflowError'', ''int too large to convert to float'')"
proof -
  let ?hh = "replicate 310 CHR ''9''"
  let ?inp = "''Duration: '' @ ?hh @ '':00:00''"
  have dh: "digits1 ?hh" by (simp add: digits1_def is_digit_def)
  have "?inp = [] @ ''Duration:'' @ '' '' @ ?hh @ '':'' @ ''00'' @ '':'' @ ''00'' @ []"
    by simp
  moreover have "spaces '' ''" "digits1 ''00''" "seconds_text ''00''"
    by (simp_all add: spaces_def is_space_def digits1_def seconds_text_def is_digit_def)
  ultimately have "duration_match ?inp [] ?hh ''00'' ''00''"
    unfolding duration_match_def using dh by blast
  then have "duration_match (drop 0 ?inp) [] ?hh ''00'' ''00''" by simp
  from match_here_complete [OF this] obtain ss where
    "match_here ?inp = Some (?hh, ''00'', ss)" by auto
  then have "search ?inp = Some (?hh, ''00'', ss)" by (rule search_here)
  then obtain pre where fm: "first_match ?inp pre ?hh ''00'' ss"
    using search_first_match by blast
  have "digits_value ?hh + 1 = 10 ^ 310" by (rule digits_value_nines)
  then have "real (digits_value ?hh) + 1 = 10 ^ 310"
    by (metis of_nat_1 of_nat_add of_nat_numeral of_nat_power)
  then have "real (digits_value ?hh) = 10 ^ 310 - 1" by linarith
  then have big: "2 ^ 1024 \<le> real (digits_value ?hh * 3600 + digits_value ''00'' * 60)"
    by (simp add: digit_of_digits)
  show ?thesis
    by (rule parse_overflow [OF fm _ big]) simp
qed

section \<open>The upload size limit\<close>

lemma copy_loop_invariant:
  assumes "copy_loop stream mx w out = (res, out', remaining)" and "length (concat out) = w" and "w \<le> mx"
  shows "length (concat out') \<le> mx \<and> (\<exists>more. out' = out @ more)
         \<and> (\<forall>n. res = Copied n \<longrightarrow> n = length (concat out'))"
  using assms
proof (induction stream mx w out rule: copy_loop.induct)
  case (1 max_bytes written out)
  then show ?case by auto
next
  case (2 cls msg rest max_bytes written out)
  then show ?case by auto
next
  case (3 chunk rest max_bytes written out)
  show ?case
  proof (cases "chunk = [] \<or> written + length chunk > max_bytes")
    case True
    with 3(2-) show ?thesis by (auto split: if_splits)
  next
    case False
    with 3(2) have c: "copy_loop rest max_bytes (written + length chunk) (out @ [chunk]) = (res, out', remaining)"
      by simp
    from False 3(3,4) have "length (concat (out @ [chunk])) = written + length chunk"
      "written + length chunk \<le> max_bytes" by simp_all
    from 3(1) [OF _ _ c this] False
    have "length (concat out') \<le> max_bytes \<and> (\<exists>more. out' = (out @ [chunk]) @ more)
         \<and> (\<forall>n. res = Copied n \<longrightarrow> n = length (concat out'))"
      by simp
    then show ?thesis by auto
  qed
qed

lemma copy_loop_chunks:
  assumes "[] \<notin> set cs" and "w + length (concat cs) \<le> mx"
  shows "copy_loop (map Chunk cs @ tail) mx w out
           = copy_loop tail mx (w + length (concat cs)) (out @ cs)"
  using assms
proof (induction cs arbitrary: w out)
  case Nil
  then show ?case by simp
next
  case (Cons c cs)
  then have "c \<noteq> []" "\<not> w + length c > mx" "[] \<notin> set cs"
    "(w + length c) + length (concat cs) \<le> mx" by auto
  with Cons.IH [of "w + length c" "out @ [c]"] show ?case by (simp add: add.assoc)
qed


lemma concat_take_le: "length (concat (take k xs)) \<le> length (concat xs)"
proof -
  have "concat xs = concat (take k xs) @ concat (drop k xs)"
    by (metis append_take_drop_id concat_append)
  then show ?thesis by simp
qed

lemma save_upload_unfold:
  assumes "copy_loop stream max_bytes 0 [] = (res, out, rest)"
  shows "save_upload_with_limit stream dest max_bytes d =
     (case res of
           Copied written \<Rightarrow>
             \<lparr>outcome = Inr written,
              disk_after_save = (mkdir_parents (butlast dest) d)
                 \<lparr>files := (files d)(dest \<mapsto> Raw (concat out))\<rparr>,
              unread = rest, write_log = out\<rparr>
         | TooLarge \<Rightarrow>
             \<lparr>outcome = Inl (HTTPException 413
                  (''File too large. Max is '' @ str_nat (max_bytes div (1024 * 1024)) @ ''MB.'')),
              disk_after_save = (mkdir_parents (butlast dest) d)
                 \<lparr>files := (files d)(dest := None)\<rparr>,
              unread = rest, write_log = out\<rparr>
         | Failed cls msg \<Rightarrow>
             \<lparr>outcome = Inl (HTTPException 500
                  (''Failed to save upload: '' @ cls @ '': '' @ msg)),
              disk_after_save = (mkdir_parents (butlast dest) d)
                 \<lparr>files := (files d)(dest := None)\<rparr>,
              unread = rest, write_log = out\<rparr>)"
  using assms
  by (simp add: save_upload_with_limit_def unlink_if_exists_def exists_path_def mkdir_parents_def
        split: copy_outcome.splits)

text \<open>
  Claim C2. For every input stream and every ceiling \<open>max_bytes\<close> (400 MiB in
  \<^verbatim>\<open>/analyze\<close>), the bytes written to the destination never exceed the ceiling at any
  moment of the transfer, so never by more than one chunk. When the running total first
  exceeds the ceiling, \<open>save_upload_with_limit\<close> raises the 413 error at once, leaving the
  rest of the stream unread, and no file remains at the destination (nor after any other
  failure). When the stream ends within the ceiling it returns the total byte count and
  the file holds all the bytes.
\<close>

theorem save_upload_with_limit_spec:
  fixes stream :: "read_result list" and dest :: path and max_bytes :: nat and d :: filesystem
  defines "r \<equiv> save_upload_with_limit stream dest max_bytes d"
  shows "(\<forall>k. length (concat (take k (write_log r))) \<le> max_bytes)
    \<and> (\<forall>n. outcome r = Inr n \<longrightarrow>
          n = length (concat (write_log r)) \<and> n \<le> max_bytes
          \<and> files (disk_after_save r) dest = Some (Raw (concat (write_log r))))
    \<and> (\<forall>e. outcome r = Inl e \<longrightarrow> files (disk_after_save r) dest = None)
    \<and> (\<forall>cs bs rest.
          stream = map Chunk cs @ Chunk bs # rest \<and> [] \<notin> set cs
          \<and> length (concat cs) \<le> max_bytes \<and> max_bytes < length (concat cs) + length bs
          \<longrightarrow> outcome r = Inl (HTTPException 413
                  (''File too large. Max is '' @ str_nat (max_bytes div (1024 * 1024)) @ ''MB.''))
              \<and> unread r = rest \<and> write_log r = cs
              \<and> files (disk_after_save r) dest = None)
    \<and> (\<forall>cs. stream = map Chunk cs \<and> [] \<notin> set cs \<and> length (concat cs) \<le> max_bytes
          \<longrightarrow> outcome r = Inr (length (concat cs))
              \<and> files (disk_after_save r) dest = Some (Raw (concat cs)))
    \<and> (max_bytes = MAX_UPLOAD_BYTES \<longrightarrow>
          (\<forall>k. length (concat (take k (write_log r))) \<le> 419430400))"
proof -
  obtain res out rest0 where c: "copy_loop stream max_bytes 0 [] = (res, out, rest0)"
    by (cases "copy_loop stream max_bytes 0 []") auto
  note u = save_upload_unfold [OF c, of dest d, folded r_def]
  from copy_loop_invariant [OF c] have inv: "length (concat out) \<le> max_bytes"
    "\<forall>n. res = Copied n \<longrightarrow> n = length (concat out)"
    by simp_all
  have wl: "write_log r = out"
    unfolding u by (cases res) simp_all
  have 1: "\<forall>k. length (concat (take k (write_log r))) \<le> max_bytes"
    using inv(1) concat_take_le [of _ out] unfolding wl by (meson le_trans)
  have 2: "\<forall>n. outcome r = Inr n \<longrightarrow>
          n = length (concat (write_log r)) \<and> n \<le> max_bytes
          \<and> files (disk_after_save r) dest = Some (Raw (concat (write_log r)))"
    using inv unfolding u by (cases res) auto
  have 3: "\<forall>e. outcome r = Inl e \<longrightarrow> files (disk_after_save r) dest = None"
    unfolding u by (cases res) auto
  have 4: "outcome r = Inl (HTTPException 413
                  (''File too large. Max is '' @ str_nat (max_bytes div (1024 * 1024)) @ ''MB.''))
              \<and> unread r = rest \<and> write_log r = cs
              \<and> files (disk_after_save r) dest = None"
    if "stream = map Chunk cs @ Chunk bs # rest \<and> [] \<notin> set cs
          \<and> length (concat cs) \<le> max_bytes \<and> max_bytes < length (concat cs) + length bs"
    for cs bs rest
  proof -
    from that have "copy_loop stream max_bytes 0 [] = copy_loop (Chunk bs # rest) max_bytes (length (concat cs)) cs"
      using copy_loop_chunks [of cs 0 max_bytes "Chunk bs # rest" "[]"] by simp
    also from that have "\<dots> = (TooLarge, cs, rest)" by auto
    finally have "res = TooLarge" "out = cs" "rest0 = rest" using c by simp_all
    then show ?thesis unfolding u by simp
  qed
  have 5: "outcome r = Inr (length (concat cs))
              \<and> files (disk_after_save r) dest = Some (Raw (concat cs))"
    if "stream = map Chunk cs \<and> [] \<notin> set cs \<and> length (concat cs) \<le> max_bytes" for cs
  proof -
    from that have "copy_loop stream max_bytes 0 [] = copy_loop [] max_bytes (length (concat cs)) cs"
      using copy_loop_chunks [of cs 0 max_bytes "[]" "[]"] by simp
    then have "res = Copied (length (concat cs))" "out = cs" using c by simp_all
    then show ?thesis unfolding u by simp
  qed
  have 6: "max_bytes = MAX_UPLOAD_BYTES \<longrightarrow>
          (\<forall>k. length (concat (take k (write_log r))) \<le> 419430400)"
  proof (intro impI allI)
    fix k assume m: "max_bytes = MAX_UPLOAD_BYTES"
    from 1 have "length (concat (take k (write_log r))) \<le> max_bytes" by blast
    also have "max_bytes = 419430400" unfolding m by (simp add: MAX_UPLOAD_BYTES_def)
    finally show "length (concat (take k (write_log r))) \<le> 419430400" .
  qed
  from 1 2 3 4 5 6 show ?thesis by blast
qed

lemma str_nat_0: "str_nat 0 = ''0''"
  by (simp add: str_nat.simps digit_char_def)

theorem save_upload_with_limit_spec_witness:
  "outcome (save_upload_with_limit [Chunk ''abc'', Chunk ''def'', Chunk ''ghi'']
              [''uploads'', ''j1_side.mov''] 5 fs_empty)
     = Inl (HTTPException 413 ''File too large. Max is 0MB.'')
   \<and> unread (save_upload_with_limit [Chunk ''abc'', Chunk ''def'', Chunk ''ghi'']
              [''uploads'', ''j1_side.mov''] 5 fs_empty) = [Chunk ''ghi'']
   \<and> write_log (save_upload_with_limit [Chunk ''abc'', Chunk ''def'', Chunk ''ghi'']
              [''uploads'', ''j1_side.mov''] 5 fs_empty) = [''abc'']
   \<and> files (disk_after_save (save_upload_with_limit [Chunk ''abc'', Chunk ''def'', Chunk ''ghi'']
              [''uploads'', ''j1_side.mov''] 5 fs_empty)) [''uploads'', ''j1_side.mov''] = None
   \<and> outcome (save_upload_with_limit [Chunk ''abc'', Chunk ''de'']
              [''uploads'', ''j1_side.mov''] 5 fs_empty) = Inr 5
   \<and> files (disk_after_save (save_upload_with_limit [Chunk ''abc'', Chunk ''de'']
              [''uploads'', ''j1_side.mov''] 5 fs_empty)) [''uploads'', ''j1_side.mov'']
       = Some (Raw ''abcde'')"
proof -
  have a: "[Chunk ''abc'', Chunk ''def'', Chunk ''ghi''] = map Chunk [''abc''] @ Chunk ''def'' # [Chunk ''ghi'']
           \<and> [] \<notin> set [''abc''] \<and> length (concat [''abc'']) \<le> (5::nat)
           \<and> (5::nat) < length (concat [''abc'']) + length ''def''"
    by simp
  have b: "[Chunk ''abc'', Chunk ''de''] = map Chunk [''abc'', ''de''] \<and> [] \<notin> set [''abc'', ''de'']
           \<and> length (concat [''abc'', ''de'']) \<le> (5::nat)"
    by simp
  note s1 = save_upload_with_limit_spec [of "[Chunk ''abc'', Chunk ''def'', Chunk ''ghi'']"
              "[''uploads'', ''j1_side.mov'']" 5 fs_empty,
              THEN conjunct2, THEN conjunct2, THEN conjunct2, THEN conjunct1, rule_format, OF a]
  note s2 = save_upload_with_limit_spec [of "[Chunk ''abc'', Chunk ''de'']"
              "[''uploads'', ''j1_side.mov'']" 5 fs_empty,
              THEN conjunct2, THEN conjunct2, THEN conjunct2, THEN conjunct2, THEN conjunct1,
              rule_format, OF b]
  from s1 s2 show ?thesis by (simp add: str_nat_0)
qed

end
